theory Spec2Isabelle
  imports Main
begin

section \<open>JavaScript values and the operators the sources use\<close>

text \<open>
  The repository is untyped JavaScript: tool arguments and remote responses are parsed
  JSON documents. A value is one of the JSON shapes, \<open>undefined\<close>, \<open>NaN\<close> (the result
  of arithmetic on a non-number) or a built-in function object (what reading an inherited
  method such as \<open>Array.prototype.values\<close> yields). Numbers are the counts, offsets and
  ids the sources handle and are integers here; an object is the association list of
  its properties, in property order and with distinct keys.
\<close>

datatype jsval =
    JUndefined
  | JNull
  | JBool bool
  | JNum int
  | JNaN
  | JStr string
  | JArr "jsval list"
  | JObj "(string \<times> jsval) list"
  | JFun string

text \<open>
  What a \<open>throw\<close> or a rejected promise carries: \<open>new Error(message)\<close>, a
  \<open>TypeError\<close> raised by the language itself, or any other rejected value (the
  transport client rejects with a plain \<open>errorDetails\<close> object).
\<close>

datatype exn = Error string | TypeError | Rejection jsval

fun truthy :: "jsval \<Rightarrow> bool" where
  "truthy JUndefined = False"
| "truthy JNull = False"
| "truthy (JBool b) = b"
| "truthy (JNum n) = (n \<noteq> 0)"
| "truthy JNaN = False"
| "truthy (JStr s) = (s \<noteq> [])"
| "truthy (JArr xs) = True"
| "truthy (JObj kvs) = True"
| "truthy (JFun f) = True"

text \<open>\<open>a || b\<close>\<close>

definition js_or :: "jsval \<Rightarrow> jsval \<Rightarrow> jsval" where
  "js_or a b = (if truthy a then a else b)"

text \<open>\<open>v == null\<close>: true of \<open>null\<close> and \<open>undefined\<close> only.\<close>

fun nullish :: "jsval \<Rightarrow> bool" where
  "nullish JUndefined = True"
| "nullish JNull = True"
| "nullish v = False"

fun isArray :: "jsval \<Rightarrow> bool" where
  "isArray (JArr xs) = True"
| "isArray v = False"

text \<open>
  Property read \<open>v.k\<close> on a value that is neither \<open>null\<close> nor \<open>undefined\<close>. An
  object yields its own property or \<open>undefined\<close>. An array has \<open>length\<close> and
  inherits the method \<open>values\<close> from \<open>Array.prototype\<close>, so \<open>[1, 2].values\<close> is a
  function object, not \<open>undefined\<close>. A string has \<open>length\<close>. The function is exact
  for the property names the sources read (\<open>values\<close>, \<open>total\<close>, \<open>size\<close>,
  \<open>length\<close>, \<open>message\<close> and the argument and record fields); array indices and the
  other inherited members are not read anywhere and are not modelled.
\<close>

fun read_prop :: "jsval \<Rightarrow> string \<Rightarrow> jsval" where
  "read_prop (JObj kvs) k = (case map_of kvs k of Some v \<Rightarrow> v | None \<Rightarrow> JUndefined)"
| "read_prop (JArr xs) k =
     (if k = ''length'' then JNum (int (length xs))
      else if k = ''values'' then JFun ''values''
      else JUndefined)"
| "read_prop (JStr s) k = (if k = ''length'' then JNum (int (length s)) else JUndefined)"
| "read_prop (JFun f) k =
     (if k = ''length'' then JNum 0 else if k = ''name'' then JStr f else JUndefined)"
| "read_prop v k = JUndefined"

text \<open>\<open>v.k\<close> in general: reading a property of \<open>null\<close> or \<open>undefined\<close> raises.\<close>

definition get_prop :: "jsval \<Rightarrow> string \<Rightarrow> exn + jsval" where
  "get_prop v k = (if nullish v then Inl TypeError else Inr (read_prop v k))"

text \<open>\<open>v?.k\<close>\<close>

definition opt_prop :: "jsval \<Rightarrow> string \<Rightarrow> jsval" where
  "opt_prop v k = (if nullish v then JUndefined else read_prop v k)"

text \<open>
  Spread \<open>...v\<close> in an argument list or array literal iterates \<open>v\<close>: an array
  yields its elements, a string its characters; every other value is not iterable
  and the spread raises \<open>TypeError\<close>.
\<close>

fun spread :: "jsval \<Rightarrow> exn + jsval list" where
  "spread (JArr xs) = Inr xs"
| "spread (JStr s) = Inr (map (\<lambda>c. JStr [c]) s)"
| "spread v = Inl TypeError"

subsection \<open>Conversion to strings and numbers\<close>

fun show_nat :: "nat \<Rightarrow> string" where
  "show_nat n =
     (if n < 10 then [''0123456789'' ! n]
      else show_nat (n div 10) @ [''0123456789'' ! (n mod 10)])"

definition show_int :: "int \<Rightarrow> string" where
  "show_int i = (if i < 0 then CHR ''-'' # show_nat (nat (- i)) else show_nat (nat i))"

fun join :: "string \<Rightarrow> string list \<Rightarrow> string" where
  "join sep [] = []"
| "join sep [s] = s"
| "join sep (s # t # ss) = s @ sep @ join sep (t # ss)"

text \<open>
  \<open>String(v)\<close>, as template literals and \<open>RegExp.prototype.test\<close> apply it. A
  number is printed in decimal digits, as JavaScript prints an integer below \<open>10^21\<close>
  in magnitude. An array joins its elements with commas, \<open>null\<close> and \<open>undefined\<close>
  elements giving the empty string; a plain object gives \<open>[object Object]\<close>.
\<close>

fun to_string :: "jsval \<Rightarrow> string" where
  "to_string JUndefined = ''undefined''"
| "to_string JNull = ''null''"
| "to_string (JBool b) = (if b then ''true'' else ''false'')"
| "to_string (JNum n) = show_int n"
| "to_string JNaN = ''NaN''"
| "to_string (JStr s) = s"
| "to_string (JArr xs) =
     join '','' (map (\<lambda>x. if x = JUndefined \<or> x = JNull then [] else to_string x) xs)"
| "to_string (JObj kvs) = ''[object Object]''"
| "to_string (JFun f) = ''function '' @ f @ ''() { [native code] }''"

definition is_digit :: "char \<Rightarrow> bool" where
  "is_digit c = (c \<in> set ''0123456789'')"

definition digit_val :: "char \<Rightarrow> nat" where
  "digit_val c = of_char c - of_char CHR ''0''"

definition read_nat :: "string \<Rightarrow> nat" where
  "read_nat s = foldl (\<lambda>n c. 10 * n + digit_val c) 0 s"

text \<open>
  \<open>Number(s)\<close> for a string, computed for the two forms the model reads: the empty
  string is 0 and an optionally signed run of decimal digits is its value. For every
  other string the result here is \<open>None\<close>. That is the code's \<open>NaN\<close> for a string that
  is no numeric literal of JavaScript; a literal with surrounding white space, a
  fraction, an exponent, a radix prefix, or \<open>Infinity\<close>, is a number in the code and
  is not computed here. The statements below that depend on the result of a conversion
  apply it to no string.
\<close>

definition string_to_number :: "string \<Rightarrow> int option" where
  "string_to_number s =
     (case s of
        [] \<Rightarrow> Some 0
      | c # r \<Rightarrow>
          if (c = CHR ''-'' \<or> c = CHR ''+'') \<and> r \<noteq> [] \<and> list_all is_digit r
          then Some (if c = CHR ''-'' then - int (read_nat r) else int (read_nat r))
          else if list_all is_digit s then Some (int (read_nat s))
          else None)"

text \<open>\<open>Number(v)\<close>; \<open>None\<close> is \<open>NaN\<close>.\<close>

fun to_number :: "jsval \<Rightarrow> int option" where
  "to_number JUndefined = None"
| "to_number JNull = Some 0"
| "to_number (JBool b) = Some (if b then 1 else 0)"
| "to_number (JNum n) = Some n"
| "to_number JNaN = None"
| "to_number (JStr s) = string_to_number s"
| "to_number (JArr xs) = string_to_number (to_string (JArr xs))"
| "to_number (JObj kvs) = None"
| "to_number (JFun f) = None"

text \<open>
  The two relational tests of the sources have a number on one side, so the other side
  is converted to a number, and a comparison with \<open>NaN\<close> is false:
  \<open>n >= v\<close> and \<open>v < n\<close>.
\<close>

definition js_ge :: "int \<Rightarrow> jsval \<Rightarrow> bool" where
  "js_ge n v = (case to_number v of Some m \<Rightarrow> n \<ge> m | None \<Rightarrow> False)"

definition js_lt :: "jsval \<Rightarrow> int \<Rightarrow> bool" where
  "js_lt v n = (case to_number v of Some m \<Rightarrow> m < n | None \<Rightarrow> False)"

text \<open>
  \<open>v * n\<close> for a number \<open>n\<close>. The numbers of this model are integers and the product
  is the exact one. It is the product of the code, which computes in double precision,
  when \<open>v\<close> is a number and the product is at most \<open>2^53\<close> in magnitude; beyond that
  the code rounds. The statements below use the product within that range.
\<close>

definition js_times :: "jsval \<Rightarrow> int \<Rightarrow> jsval" where
  "js_times v n = (case to_number v of Some m \<Rightarrow> JNum (m * n) | None \<Rightarrow> JNaN)"


subsection \<open>Objects\<close>

text \<open>
  Assigning property \<open>k\<close> of an object: an existing property keeps its place and takes
  the new value, a new one goes last.
\<close>

fun obj_set :: "(string \<times> jsval) list \<Rightarrow> string \<Rightarrow> jsval \<Rightarrow> (string \<times> jsval) list" where
  "obj_set [] k v = [(k, v)]"
| "obj_set ((k', v') # kvs) k v =
     (if k' = k then (k, v) # kvs else (k', v') # obj_set kvs k v)"

text \<open>
  \<open>Object.fromEntries(es)\<close> and the object literal \<open>{...a, ...b}\<close>: the properties
  are assigned one after the other, first those of \<open>a\<close>, then those of \<open>b\<close>.
\<close>

definition fromEntries :: "(string \<times> jsval) list \<Rightarrow> (string \<times> jsval) list" where
  "fromEntries es = foldl (\<lambda>obj (k, v). obj_set obj k v) [] es"

definition spread2 :: "(string \<times> jsval) list \<Rightarrow> (string \<times> jsval) list \<Rightarrow> (string \<times> jsval) list" where
  "spread2 a b = foldl (\<lambda>obj (k, v). obj_set obj k v) (fromEntries a) b"

section \<open>The transport client (\<open>ZephyrClient\<close>)\<close>

text \<open>
  The configuration object handed to the HTTP library, the response it resolves with and
  the error it rejects with. \<open>err_response\<close> is absent when no HTTP response arrived
  (a network failure or a timeout), \<open>err_config\<close> when the failure precedes the request.
\<close>

record http_request =
  req_method :: string
  req_url :: string
  req_data :: jsval
  req_params :: "(string \<times> jsval) list"

record http_response =
  res_status :: int
  res_statusText :: string
  res_data :: jsval

record axios_config =
  cfg_url :: jsval
  cfg_method :: "string option"
  cfg_data :: jsval
  cfg_params :: jsval

record axios_error =
  err_response :: "http_response option"
  err_config :: "axios_config option"
  err_message :: string

text \<open>
  The remote service, as seen through the HTTP library before the client's response
  interceptor: the \<open>k\<close>-th request of a run (counting from 0) is answered with a
  response or fails.
\<close>

type_synonym transport = "nat \<Rightarrow> http_request \<Rightarrow> axios_error + http_response"

definition toUpperCase :: "string \<Rightarrow> string" where
  "toUpperCase s =
     map (\<lambda>c. case map_of (zip ''abcdefghijklmnopqrstuvwxyz'' ''ABCDEFGHIJKLMNOPQRSTUVWXYZ'') c of
                Some u \<Rightarrow> u
              | None \<Rightarrow> c) s"

text \<open>
  The response interceptor's error branch: the seven keys are always assigned, each
  through optional chaining; \<open>responseData\<close> is added when the response body is
  truthy.
\<close>

definition errorDetails :: "axios_error \<Rightarrow> jsval" where
  "errorDetails error =
     JObj
       ([(''status'', case err_response error of None \<Rightarrow> JUndefined | Some r \<Rightarrow> JNum (res_status r)),
         (''statusText'', case err_response error of None \<Rightarrow> JUndefined | Some r \<Rightarrow> JStr (res_statusText r)),
         (''url'', case err_config error of None \<Rightarrow> JUndefined | Some c \<Rightarrow> cfg_url c),
         (''method'',
            case err_config error of
              None \<Rightarrow> JUndefined
            | Some c \<Rightarrow> (case cfg_method c of None \<Rightarrow> JUndefined | Some m \<Rightarrow> JStr (toUpperCase m))),
         (''message'', JStr (err_message error)),
         (''requestData'', case err_config error of None \<Rightarrow> JUndefined | Some c \<Rightarrow> cfg_data c),
         (''params'', case err_config error of None \<Rightarrow> JUndefined | Some c \<Rightarrow> cfg_params c)]
        @ (case err_response error of
             None \<Rightarrow> []
           | Some r \<Rightarrow> if truthy (res_data r) then [(''responseData'', res_data r)] else []))"

text \<open>
  \<open>request(method, url, data, params)\<close>. The configuration it builds: \<open>params\<close> is
  the object literal that first spreads \<open>params\<close> itself and then the entries of
  \<open>params\<close> whose value is not \<open>null\<close> or \<open>undefined\<close>.
\<close>

definition request_config ::
  "string \<Rightarrow> string \<Rightarrow> jsval \<Rightarrow> (string \<times> jsval) list \<Rightarrow> http_request" where
  "request_config method url data params =
     \<lparr>req_method = method, req_url = url, req_data = data,
      req_params = spread2 params (fromEntries (filter (\<lambda>(_, value). \<not> nullish value) params))\<rparr>"

text \<open>
  The call itself. \<open>log\<close> holds the requests sent so far in this run; the request is
  appended to it. A failure is rejected with the interceptor's \<open>errorDetails\<close>,
  a success resolves with \<open>response.data\<close>.
\<close>

definition request ::
  "transport \<Rightarrow> http_request list \<Rightarrow> string \<Rightarrow> string \<Rightarrow> jsval \<Rightarrow> (string \<times> jsval) list
     \<Rightarrow> (exn + jsval) \<times> http_request list" where
  "request http log method url data params =
     (let config = request_config method url data params in
      (case http (length log) config of
         Inl error \<Rightarrow> Inl (Rejection (errorDetails error))
       | Inr response \<Rightarrow> Inr (res_data response),
       log @ [config]))"


subsection \<open>The pagination engine: \<open>getAllPaginated\<close>\<close>

text \<open>
  \<open>requestFn\<close> is an asynchronous callback given \<open>{ maxResults, startAt }\<close>. Its
  answer may depend on the state of the remote service, so the \<open>k\<close>-th call of a run
  (counting from 0) with request \<open>r\<close> is answered by \<open>requestFn k r\<close>: a rejection
  (\<open>Inl\<close>) or the response.
\<close>

datatype page_request = PageRequest (pr_maxResults: int) (pr_startAt: int)

type_synonym request_fn = "nat \<Rightarrow> page_request \<Rightarrow> exn + jsval"

definition defaultMaxResults :: int where
  "defaultMaxResults = 50"

text \<open>
  The accumulation step, written identically in \<open>getAllPaginated\<close> and in the
  \<open>get_all_test_steps\<close> handler:
  \<^verbatim>\<open>if (response.values) { all.push(...response.values); }
else if (Array.isArray(response)) { all.push(...response); }\<close>
\<close>

definition append_page :: "jsval list \<Rightarrow> jsval \<Rightarrow> exn + jsval list" where
  "append_page allResults response =
     (case get_prop response ''values'' of
        Inl e \<Rightarrow> Inl e
      | Inr values \<Rightarrow>
          if truthy values then
            (case spread values of
               Inl e \<Rightarrow> Inl e
             | Inr items \<Rightarrow> Inr (allResults @ items))
          else if isArray response then
            (case spread response of
               Inl e \<Rightarrow> Inl e
             | Inr items \<Rightarrow> Inr (allResults @ items))
          else Inr allResults)"

text \<open>\<open>const total = response.total || response.size;\<close>\<close>

definition getAllPaginated_total :: "jsval \<Rightarrow> jsval" where
  "getAllPaginated_total response =
     js_or (read_prop response ''total'') (read_prop response ''size'')"

text \<open>
  The exit test \<open>allResults.length >= total || response.values?.length < maxResults\<close>,
  on the results as they are after the accumulation step.
\<close>

definition getAllPaginated_break :: "int \<Rightarrow> jsval list \<Rightarrow> jsval \<Rightarrow> bool" where
  "getAllPaginated_break maxResults allResults response =
     (js_ge (int (length allResults)) (getAllPaginated_total response)
      \<or> js_lt (opt_prop (read_prop response ''values'') ''length'') maxResults)"

text \<open>
  The \<open>while (true)\<close> loop. \<open>calls\<close> counts the calls of \<open>requestFn\<close> made so far.
  The result is \<open>None\<close> when the loop never ends; otherwise it is what the promise
  settles with, and the number of calls made.
\<close>

partial_function (option) getAllPaginated_loop ::
  "request_fn \<Rightarrow> int \<Rightarrow> jsval list \<Rightarrow> int \<Rightarrow> nat \<Rightarrow> ((exn + jsval list) \<times> nat) option" where
  "getAllPaginated_loop requestFn maxResults allResults startAt calls =
     (case requestFn calls (PageRequest maxResults startAt) of
        Inl e \<Rightarrow> Some (Inl e, Suc calls)
      | Inr response \<Rightarrow>
          (case append_page allResults response of
             Inl e \<Rightarrow> Some (Inl e, Suc calls)
           | Inr allResults' \<Rightarrow>
               if getAllPaginated_break maxResults allResults' response
               then Some (Inr allResults', Suc calls)
               else getAllPaginated_loop requestFn maxResults allResults'
                      (startAt + maxResults) (Suc calls)))"

text \<open>\<open>getAllPaginated(requestFn, maxResults = config.defaultMaxResults)\<close>\<close>

definition getAllPaginated ::
  "request_fn \<Rightarrow> int option \<Rightarrow> ((exn + jsval list) \<times> nat) option" where
  "getAllPaginated requestFn maxResults =
     getAllPaginated_loop requestFn
       (case maxResults of None \<Rightarrow> defaultMaxResults | Some m \<Rightarrow> m) [] 0 0"

subsection \<open>The client's endpoint methods\<close>

definition client_getTestCase ::
  "transport \<Rightarrow> http_request list \<Rightarrow> jsval \<Rightarrow> (exn + jsval) \<times> http_request list" where
  "client_getTestCase http log testCaseKey =
     request http log ''GET'' (''/testcases/'' @ to_string testCaseKey) JNull []"

definition client_updateTestCase ::
  "transport \<Rightarrow> http_request list \<Rightarrow> jsval \<Rightarrow> jsval \<Rightarrow> (exn + jsval) \<times> http_request list" where
  "client_updateTestCase http log testCaseKey testCaseData =
     request http log ''PUT'' (''/testcases/'' @ to_string testCaseKey) testCaseData []"

definition client_getTestSteps ::
  "transport \<Rightarrow> http_request list \<Rightarrow> jsval \<Rightarrow> (string \<times> jsval) list
     \<Rightarrow> (exn + jsval) \<times> http_request list" where
  "client_getTestSteps http log testCaseKey params =
     request http log ''GET'' (''/testcases/'' @ to_string testCaseKey @ ''/teststeps'') JNull params"

definition client_appendTestSteps ::
  "transport \<Rightarrow> http_request list \<Rightarrow> jsval \<Rightarrow> jsval \<Rightarrow> (exn + jsval) \<times> http_request list" where
  "client_appendTestSteps http log testCaseKey stepsData =
     request http log ''POST'' (''/testcases/'' @ to_string testCaseKey @ ''/teststeps'') stepsData []"

section \<open>Configuration: the key pattern\<close>

text \<open>
  Regular expressions, matched by derivatives. \<open>AnyChar\<close> is \<open>.\<close> (any character
  but a line terminator), \<open>Digit\<close> is \<open>[0-9]\<close> (also written \<open>\d\<close>), \<open>Upper\<close> is
  \<open>[A-Z]\<close>, \<open>Class cs\<close> is the class of the characters \<open>cs\<close>.
\<close>

datatype regex =
    Nothing
  | Empty
  | AnyChar
  | Lit char
  | Digit
  | Upper
  | Class string
  | Seq regex regex
  | Alt regex regex
  | Star regex

fun nullable :: "regex \<Rightarrow> bool" where
  "nullable Nothing = False"
| "nullable Empty = True"
| "nullable AnyChar = False"
| "nullable (Lit c) = False"
| "nullable Digit = False"
| "nullable Upper = False"
| "nullable (Class cs) = False"
| "nullable (Seq r s) = (nullable r \<and> nullable s)"
| "nullable (Alt r s) = (nullable r \<or> nullable s)"
| "nullable (Star r) = True"

fun deriv :: "char \<Rightarrow> regex \<Rightarrow> regex" where
  "deriv c Nothing = Nothing"
| "deriv c Empty = Nothing"
| "deriv c AnyChar = (if c = CHR 0x0A \<or> c = CHR 0x0D then Nothing else Empty)"
| "deriv c (Lit d) = (if c = d then Empty else Nothing)"
| "deriv c Digit = (if is_digit c then Empty else Nothing)"
| "deriv c Upper = (if c \<in> set ''ABCDEFGHIJKLMNOPQRSTUVWXYZ'' then Empty else Nothing)"
| "deriv c (Class cs) = (if c \<in> set cs then Empty else Nothing)"
| "deriv c (Seq r s) =
     (if nullable r then Alt (Seq (deriv c r) s) (deriv c s) else Seq (deriv c r) s)"
| "deriv c (Alt r s) = Alt (deriv c r) (deriv c s)"
| "deriv c (Star r) = Seq (deriv c r) (Star r)"

text \<open>The whole string matches (a pattern anchored with \<open>^\<close> and \<open>$\<close>).\<close>

fun regex_full :: "regex \<Rightarrow> string \<Rightarrow> bool" where
  "regex_full r [] = nullable r"
| "regex_full r (c # s) = regex_full (deriv c r) s"

text \<open>Some prefix of the string matches.\<close>

fun regex_prefix :: "regex \<Rightarrow> string \<Rightarrow> bool" where
  "regex_prefix r [] = nullable r"
| "regex_prefix r (c # s) = (nullable r \<or> regex_prefix (deriv c r) s)"

text \<open>
  \<open>pattern.test(s)\<close> for a pattern without anchors and flags: some substring matches.
\<close>

fun regex_test :: "regex \<Rightarrow> string \<Rightarrow> bool" where
  "regex_test r [] = nullable r"
| "regex_test r (c # s) = (regex_prefix r (c # s) \<or> regex_test r s)"

definition Plus :: "regex \<Rightarrow> regex" where
  "Plus r = Seq r (Star r)"

text \<open>\<open>testCaseKeyPattern: /.+-T[0-9]+/\<close>\<close>

definition testCaseKeyPattern :: regex where
  "testCaseKeyPattern = Seq (Plus AnyChar) (Seq (Lit CHR ''-'') (Seq (Lit CHR ''T'') (Plus Digit)))"

text \<open>
  \<open>config.testCaseKeyPattern.test(testCaseKey)\<close>: the argument is converted to a
  string first.
\<close>

definition testCaseKeyPattern_test :: "jsval \<Rightarrow> bool" where
  "testCaseKeyPattern_test testCaseKey = regex_test testCaseKeyPattern (to_string testCaseKey)"

text \<open>
  The form the handlers' messages and schemas advertise, \<open>[A-Z]+-T[0-9]+\<close>, as a
  pattern for the whole key.
\<close>

definition advertisedKeyPattern :: regex where
  "advertisedKeyPattern = Seq (Plus Upper) (Seq (Lit CHR ''-'') (Seq (Lit CHR ''T'') (Plus Digit)))"


section \<open>Tool handlers\<close>

text \<open>
  A handler resolves with \<open>{ content: [{ type: 'text', text }], isError? }\<close>. The text
  is either \<open>JSON.stringify(value, null, 2)\<close> or \<open>formatError(error, operation)\<close>;
  it is kept here as the value, or as the error and the operation, it is printed from.
  \<open>isError\<close> is \<open>False\<close> where the source leaves the key out.
\<close>

datatype content_item = JsonText jsval | ErrorText exn string

record tool_result =
  content :: "content_item list"
  isError :: bool

text \<open>
  \<open>formatError(error, operation)\<close> reads \<open>error.message\<close>, which raises when the
  caught value is \<open>null\<close> or \<open>undefined\<close>.
\<close>

definition formatError :: "exn \<Rightarrow> string \<Rightarrow> exn + content_item" where
  "formatError error operation =
     (case error of
        Rejection v \<Rightarrow> if nullish v then Inl TypeError else Inr (ErrorText error operation)
      | _ \<Rightarrow> Inr (ErrorText error operation))"

text \<open>
  The \<open>catch\<close> block of the handlers below:
  \<^verbatim>\<open>return { content: [{ type: 'text',
  text: formatError(error, `<doing> ${args.testCaseKey}`) }], isError: true };\<close>
  The template literal reads \<open>args.testCaseKey\<close> before \<open>formatError\<close> is called.
  An exception raised here leaves the handler.
\<close>

definition catch_block :: "jsval \<Rightarrow> string \<Rightarrow> exn \<Rightarrow> exn + tool_result" where
  "catch_block args doing error =
     (case get_prop args ''testCaseKey'' of
        Inl e \<Rightarrow> Inl e
      | Inr key \<Rightarrow>
          (case formatError error (doing @ to_string key) of
             Inl e \<Rightarrow> Inl e
           | Inr text \<Rightarrow> Inr \<lparr>content = [text], isError = True\<rparr>))"

definition invalid_key :: exn where
  "invalid_key = Error ''Invalid testCaseKey format. Must match pattern: [A-Z]+-T[0-9]+''"

subsection \<open>\<open>get_test_steps\<close>\<close>

text \<open>
  The body of the \<open>try\<close> block: what it returns or throws, and the requests sent.
\<close>

definition getTestSteps_try ::
  "transport \<Rightarrow> jsval \<Rightarrow> (exn + tool_result) \<times> http_request list" where
  "getTestSteps_try http args =
     (if nullish args then (Inl TypeError, [])
      else
        let testCaseKey = read_prop args ''testCaseKey'';
            maxResults = read_prop args ''maxResults'';
            startAt = read_prop args ''startAt''
        in
          if \<not> truthy testCaseKey then (Inl (Error ''testCaseKey is required''), [])
          else if \<not> testCaseKeyPattern_test testCaseKey then (Inl invalid_key, [])
          else
            let params =
                  [(''maxResults'', js_or maxResults (JNum defaultMaxResults)),
                   (''startAt'', js_or startAt (JNum 0))]
            in
              (case client_getTestSteps http [] testCaseKey params of
                 (Inl e, log) \<Rightarrow> (Inl e, log)
               | (Inr response, log) \<Rightarrow>
                   if nullish response then (Inl TypeError, log)
                   else
                     (Inr \<lparr>content =
                             [JsonText (JObj
                                [(''testCaseKey'', testCaseKey),
                                 (''testSteps'', js_or (read_prop response ''values'') response),
                                 (''total'',
                                    js_or (read_prop response ''total'') (read_prop response ''length'')),
                                 (''startAt'', js_or (read_prop response ''startAt'') (JNum 0)),
                                 (''maxResults'',
                                    js_or (read_prop response ''maxResults'')
                                      (js_or maxResults (JNum defaultMaxResults))),
                                 (''note'',
                                    JStr ''Test steps are returned in paged format (100 items per page max)'')])],
                           isError = False\<rparr>,
                      log)))"

definition getTestSteps ::
  "transport \<Rightarrow> jsval \<Rightarrow> (exn + tool_result) \<times> http_request list" where
  "getTestSteps http args =
     (case getTestSteps_try http args of
        (Inl error, log) \<Rightarrow> (catch_block args ''fetching test steps for '' error, log)
      | (Inr result, log) \<Rightarrow> (Inr result, log))"

subsection \<open>\<open>append_test_steps\<close>\<close>

text \<open>The callback of \<open>steps.map\<close>, for the step at position \<open>index\<close>.\<close>

definition format_step :: "nat \<Rightarrow> jsval \<Rightarrow> exn + jsval" where
  "format_step index step =
     (if nullish step then Inl TypeError
      else if \<not> truthy (read_prop step ''description'') then
        Inl (Error (''Step '' @ show_nat (index + 1) @ '' is missing required field: description''))
      else
        Inr (JObj
          [(''inline'',
            JObj
              ([(''description'', read_prop step ''description'')]
               @ (if read_prop step ''expectedResult'' \<noteq> JUndefined
                  then [(''expectedResult'', read_prop step ''expectedResult'')] else [])
               @ (if read_prop step ''data'' \<noteq> JUndefined
                  then [(''testData'', read_prop step ''data'')] else [])
               @ (if read_prop step ''attachments'' \<noteq> JUndefined
                  then [(''attachments'', read_prop step ''attachments'')] else [])))]))"

text \<open>\<open>steps.map\<close> with that callback: the first step that throws ends the map.\<close>

fun format_steps :: "nat \<Rightarrow> jsval list \<Rightarrow> exn + jsval list" where
  "format_steps index [] = Inr []"
| "format_steps index (step # steps) =
     (case format_step index step of
        Inl e \<Rightarrow> Inl e
      | Inr formattedStep \<Rightarrow>
          (case format_steps (Suc index) steps of
             Inl e \<Rightarrow> Inl e
           | Inr rest \<Rightarrow> Inr (formattedStep # rest)))"

fun elements :: "jsval \<Rightarrow> jsval list" where
  "elements (JArr xs) = xs"
| "elements v = []"

definition appendTestSteps_try ::
  "transport \<Rightarrow> jsval \<Rightarrow> (exn + tool_result) \<times> http_request list" where
  "appendTestSteps_try http args =
     (if nullish args then (Inl TypeError, [])
      else
        let testCaseKey = read_prop args ''testCaseKey'';
            steps = read_prop args ''steps''
        in
          if \<not> truthy testCaseKey then (Inl (Error ''testCaseKey is required''), [])
          else if \<not> testCaseKeyPattern_test testCaseKey then (Inl invalid_key, [])
          else if \<not> truthy steps \<or> \<not> isArray steps then
            (Inl (Error ''steps must be provided as an array''), [])
          else if length (elements steps) = 0 then
            (Inl (Error ''At least one step must be provided''), [])
          else if length (elements steps) > 100 then
            (Inl (Error ''Maximum 100 steps can be added per request''), [])
          else
            (case format_steps 0 (elements steps) of
               Inl e \<Rightarrow> (Inl e, [])
             | Inr formattedSteps \<Rightarrow>
                 let payload = JObj [(''mode'', JStr ''OVERWRITE''), (''items'', JArr formattedSteps)]
                 in
                   (case client_appendTestSteps http [] testCaseKey payload of
                      (Inl e, log) \<Rightarrow> (Inl e, log)
                    | (Inr result, log) \<Rightarrow>
                        (Inr \<lparr>content =
                                [JsonText (JObj
                                   [(''message'',
                                       JStr (''Successfully added '' @ show_nat (length (elements steps))
                                             @ '' test steps to '' @ to_string testCaseKey)),
                                    (''testCaseKey'', testCaseKey),
                                    (''stepsAdded'', JNum (int (length (elements steps)))),
                                    (''result'', result),
                                    (''warning'',
                                       JStr ''If this test case had a test script, it has been implicitly removed'')])],
                              isError = False\<rparr>,
                         log))))"

definition appendTestSteps ::
  "transport \<Rightarrow> jsval \<Rightarrow> (exn + tool_result) \<times> http_request list" where
  "appendTestSteps http args =
     (case appendTestSteps_try http args of
        (Inl error, log) \<Rightarrow> (catch_block args ''appending test steps to '' error, log)
      | (Inr result, log) \<Rightarrow> (Inr result, log))"


subsection \<open>\<open>get_all_test_steps\<close>\<close>

text \<open>\<open>const total = response.total || response.size || 0;\<close>\<close>

definition getAllTestSteps_total :: "jsval \<Rightarrow> jsval" where
  "getAllTestSteps_total response =
     js_or (js_or (read_prop response ''total'') (read_prop response ''size'')) (JNum 0)"

text \<open>\<open>allSteps.length >= total || response.values?.length < maxResults\<close>\<close>

definition getAllTestSteps_break :: "int \<Rightarrow> jsval list \<Rightarrow> jsval \<Rightarrow> bool" where
  "getAllTestSteps_break maxResults allSteps response =
     (js_ge (int (length allSteps)) (getAllTestSteps_total response)
      \<or> js_lt (opt_prop (read_prop response ''values'') ''length'') maxResults)"

text \<open>
  The handler's own \<open>while (true)\<close> loop, with \<open>maxResults = 100\<close>. \<open>None\<close> when it
  never ends.
\<close>

partial_function (option) getAllTestSteps_loop ::
  "transport \<Rightarrow> jsval \<Rightarrow> jsval list \<Rightarrow> int \<Rightarrow> http_request list
     \<Rightarrow> ((exn + jsval list) \<times> http_request list) option" where
  "getAllTestSteps_loop http testCaseKey allSteps startAt log =
     (case client_getTestSteps http log testCaseKey
             [(''maxResults'', JNum 100), (''startAt'', JNum startAt)] of
        (Inl e, log') \<Rightarrow> Some (Inl e, log')
      | (Inr response, log') \<Rightarrow>
          (case append_page allSteps response of
             Inl e \<Rightarrow> Some (Inl e, log')
           | Inr allSteps' \<Rightarrow>
               if getAllTestSteps_break 100 allSteps' response
               then Some (Inr allSteps', log')
               else getAllTestSteps_loop http testCaseKey allSteps' (startAt + 100) log'))"

definition getAllTestSteps_try ::
  "transport \<Rightarrow> jsval \<Rightarrow> ((exn + tool_result) \<times> http_request list) option" where
  "getAllTestSteps_try http args =
     (if nullish args then Some (Inl TypeError, [])
      else
        let testCaseKey = read_prop args ''testCaseKey'' in
          if \<not> truthy testCaseKey then Some (Inl (Error ''testCaseKey is required''), [])
          else if \<not> testCaseKeyPattern_test testCaseKey then Some (Inl invalid_key, [])
          else
            (case getAllTestSteps_loop http testCaseKey [] 0 [] of
               None \<Rightarrow> None
             | Some (Inl e, log) \<Rightarrow> Some (Inl e, log)
             | Some (Inr allSteps, log) \<Rightarrow>
                 Some
                   (Inr \<lparr>content =
                           [JsonText (JObj
                              [(''testCaseKey'', testCaseKey),
                               (''testSteps'', JArr allSteps),
                               (''totalSteps'', JNum (int (length allSteps))),
                               (''note'',
                                  JStr ''All test steps retrieved (pagination handled automatically)'')])],
                         isError = False\<rparr>,
                    log)))"

definition getAllTestSteps ::
  "transport \<Rightarrow> jsval \<Rightarrow> ((exn + tool_result) \<times> http_request list) option" where
  "getAllTestSteps http args =
     (case getAllTestSteps_try http args of
        None \<Rightarrow> None
      | Some (Inl error, log) \<Rightarrow>
          Some (catch_block args ''fetching all test steps for '' error, log)
      | Some (Inr result, log) \<Rightarrow> Some (Inr result, log))"

subsection \<open>\<open>get_test_case\<close>\<close>

definition getTestCase_try ::
  "transport \<Rightarrow> jsval \<Rightarrow> (exn + tool_result) \<times> http_request list" where
  "getTestCase_try http args =
     (if nullish args then (Inl TypeError, [])
      else
        let testCaseKey = read_prop args ''testCaseKey'' in
          if \<not> truthy testCaseKey then (Inl (Error ''testCaseKey is required''), [])
          else if \<not> testCaseKeyPattern_test testCaseKey then (Inl invalid_key, [])
          else
            (case client_getTestCase http [] testCaseKey of
               (Inl e, log) \<Rightarrow> (Inl e, log)
             | (Inr testCase, log) \<Rightarrow>
                 (Inr \<lparr>content = [JsonText testCase], isError = False\<rparr>, log)))"

definition getTestCase ::
  "transport \<Rightarrow> jsval \<Rightarrow> (exn + tool_result) \<times> http_request list" where
  "getTestCase http args =
     (case getTestCase_try http args of
        (Inl error, log) \<Rightarrow> (catch_block args ''fetching test case '' error, log)
      | (Inr result, log) \<Rightarrow> (Inr result, log))"

subsection \<open>\<open>update_test_case\<close>\<close>

text \<open>
  The object literal \<open>testCaseData\<close>, built from the arguments and the fetched record.
  Reading \<open>.id\<close> of \<open>currentTestCase.project\<close>, \<open>.status\<close>, \<open>.priority\<close> and (when
  no \<open>folderId\<close> is supplied) \<open>.folder\<close> raises when that member is \<open>null\<close> or
  missing, as does any read when the record itself is.
\<close>

definition testCaseData :: "jsval \<Rightarrow> jsval \<Rightarrow> exn + jsval" where
  "testCaseData args currentTestCase =
     (let testCaseKey = read_prop args ''testCaseKey'';
          name = read_prop args ''name'';
          description = read_prop args ''description'';
          folderId = read_prop args ''folderId'';
          component = read_prop args ''component'';
          labels = read_prop args ''labels'';
          objective = read_prop args ''objective'';
          precondition = read_prop args ''precondition'';
          estimatedTime = read_prop args ''estimatedTime''
      in
        if nullish currentTestCase
           \<or> nullish (read_prop currentTestCase ''project'')
           \<or> nullish (read_prop currentTestCase ''status'')
           \<or> nullish (read_prop currentTestCase ''priority'')
           \<or> (folderId = JUndefined \<and> nullish (read_prop currentTestCase ''folder''))
        then Inl TypeError
        else
          Inr (JObj
            [(''id'', read_prop currentTestCase ''id''),
             (''key'', testCaseKey),
             (''name'', if name \<noteq> JUndefined then name else read_prop currentTestCase ''name''),
             (''project'', JObj [(''id'', read_prop (read_prop currentTestCase ''project'') ''id'')]),
             (''status'', JObj [(''id'', read_prop (read_prop currentTestCase ''status'') ''id'')]),
             (''priority'', JObj [(''id'', read_prop (read_prop currentTestCase ''priority'') ''id'')]),
             (''folder'',
                JObj [(''id'',
                   if folderId \<noteq> JUndefined then folderId
                   else read_prop (read_prop currentTestCase ''folder'') ''id'')]),
             (''objective'',
                if objective \<noteq> JUndefined then objective
                else read_prop currentTestCase ''objective''),
             (''precondition'',
                if precondition \<noteq> JUndefined then precondition
                else read_prop currentTestCase ''precondition''),
             (''estimatedTime'',
                if estimatedTime \<noteq> JUndefined then js_times estimatedTime 60000
                else read_prop currentTestCase ''estimatedTime''),
             (''labels'',
                if labels \<noteq> JUndefined then (if isArray labels then labels else JArr [labels])
                else js_or (read_prop currentTestCase ''labels'') (JArr [])),
             (''description'',
                if description \<noteq> JUndefined then description
                else read_prop currentTestCase ''description''),
             (''component'',
                if component \<noteq> JUndefined then component
                else read_prop currentTestCase ''component''),
             (''owner'', read_prop currentTestCase ''owner''),
             (''customFields'', js_or (read_prop currentTestCase ''customFields'') (JObj []))]))"

definition updateTestCase_try ::
  "transport \<Rightarrow> jsval \<Rightarrow> (exn + tool_result) \<times> http_request list" where
  "updateTestCase_try http args =
     (if nullish args then (Inl TypeError, [])
      else
        let testCaseKey = read_prop args ''testCaseKey'' in
          if \<not> truthy testCaseKey then (Inl (Error ''testCaseKey is required''), [])
          else if \<not> testCaseKeyPattern_test testCaseKey then (Inl invalid_key, [])
          else
            (case client_getTestCase http [] testCaseKey of
               (Inl e, log) \<Rightarrow> (Inl e, log)
             | (Inr currentTestCase, log) \<Rightarrow>
                 (case testCaseData args currentTestCase of
                    Inl e \<Rightarrow> (Inl e, log)
                  | Inr payload \<Rightarrow>
                      (case client_updateTestCase http log testCaseKey payload of
                         (Inl e, log') \<Rightarrow> (Inl e, log')
                       | (Inr result, log') \<Rightarrow>
                           (Inr \<lparr>content =
                                   [JsonText (JObj
                                      [(''message'', JStr ''Test case updated successfully''),
                                       (''testCase'', result)])],
                                 isError = False\<rparr>,
                            log')))))"

definition updateTestCase ::
  "transport \<Rightarrow> jsval \<Rightarrow> (exn + tool_result) \<times> http_request list" where
  "updateTestCase http args =
     (case updateTestCase_try http args of
        (Inl error, log) \<Rightarrow> (catch_block args ''updating test case '' error, log)
      | (Inr result, log) \<Rightarrow> (Inr result, log))"

section \<open>A remote service that pages a fixed result set\<close>

text \<open>
  The service of the pagination scenario: a result set \<open>xs\<close> served in the page
  envelope \<open>{values, total, startAt, maxResults}\<close>, the page holding the (at most)
  \<open>maxResults\<close> items from offset \<open>startAt\<close> and \<open>total\<close> the length of the whole
  set. \<open>paged_server\<close> is such a \<open>requestFn\<close>; \<open>steps_server\<close> is the same service
  behind the HTTP transport, reading the two numbers from the query parameters.
\<close>

definition page_response :: "jsval list \<Rightarrow> int \<Rightarrow> int \<Rightarrow> jsval" where
  "page_response xs maxResults startAt =
     JObj [(''values'', JArr (take (nat maxResults) (drop (nat startAt) xs))),
           (''total'', JNum (int (length xs))),
           (''startAt'', JNum startAt),
           (''maxResults'', JNum maxResults)]"

definition paged_server :: "jsval list \<Rightarrow> request_fn" where
  "paged_server xs k r = Inr (page_response xs (pr_maxResults r) (pr_startAt r))"

definition steps_server :: "jsval list \<Rightarrow> transport" where
  "steps_server xs k rq =
     Inr \<lparr>res_status = 200, res_statusText = ''OK'',
          res_data =
            (case (map_of (req_params rq) ''maxResults'', map_of (req_params rq) ''startAt'') of
               (Some (JNum m), Some (JNum s)) \<Rightarrow> page_response xs m s
             | _ \<Rightarrow> JArr xs)\<rparr>"

text \<open>
  The same result set served by a service that reports no count: the envelope is
  \<open>{values, startAt, maxResults}\<close>, with neither \<open>total\<close> nor \<open>size\<close>. Again as a
  \<open>requestFn\<close> and behind the HTTP transport.
\<close>

definition page_without_total :: "jsval list \<Rightarrow> int \<Rightarrow> int \<Rightarrow> jsval" where
  "page_without_total xs maxResults startAt =
     JObj [(''values'', JArr (take (nat maxResults) (drop (nat startAt) xs))),
           (''startAt'', JNum startAt),
           (''maxResults'', JNum maxResults)]"

definition uncounted_server :: "jsval list \<Rightarrow> request_fn" where
  "uncounted_server xs k r = Inr (page_without_total xs (pr_maxResults r) (pr_startAt r))"

definition uncounted_steps_server :: "jsval list \<Rightarrow> transport" where
  "uncounted_steps_server xs k rq =
     Inr \<lparr>res_status = 200, res_statusText = ''OK'',
          res_data =
            (case (map_of (req_params rq) ''maxResults'', map_of (req_params rq) ''startAt'') of
               (Some (JNum m), Some (JNum s)) \<Rightarrow> page_without_total xs m s
             | _ \<Rightarrow> JArr xs)\<rparr>"

text \<open>The same result set served as bare arrays, one array per page.\<close>

definition array_server :: "jsval list \<Rightarrow> request_fn" where
  "array_server xs k r =
     Inr (JArr (take (nat (pr_maxResults r)) (drop (nat (pr_startAt r)) xs)))"

text \<open>The number of pages, rounded up.\<close>

definition ceil_div :: "nat \<Rightarrow> nat \<Rightarrow> nat" where
  "ceil_div n p = (n + p - 1) div p"

text \<open>
  The \<open>i\<close>-th request of the \<open>get_all_test_steps\<close> loop for a key (counting from 0).
\<close>

definition steps_request :: "jsval \<Rightarrow> nat \<Rightarrow> http_request" where
  "steps_request testCaseKey i =
     \<lparr>req_method = ''GET'',
      req_url = ''/testcases/'' @ to_string testCaseKey @ ''/teststeps'',
      req_data = JNull,
      req_params = [(''maxResults'', JNum 100), (''startAt'', JNum (100 * int i))]\<rparr>"

section \<open>Response shapes named by the termination claim\<close>

text \<open>
  A short page: a response that carries fewer than \<open>maxResults\<close> items, either in
  the envelope's \<open>values\<close> array or as a bare array.
\<close>

definition short_page :: "int \<Rightarrow> jsval \<Rightarrow> bool" where
  "short_page maxResults response =
     (case response of
        JObj kvs \<Rightarrow>
          (case map_of kvs ''values'' of
             Some (JArr vs) \<Rightarrow> int (length vs) < maxResults
           | _ \<Rightarrow> False)
      | JArr vs \<Rightarrow> int (length vs) < maxResults
      | _ \<Rightarrow> False)"

text \<open>
  A page with a bounded total count: an envelope whose \<open>values\<close> is an array and
  whose \<open>total\<close> is a number from 1 to \<open>bound\<close>.
\<close>

definition bounded_page :: "int \<Rightarrow> jsval \<Rightarrow> bool" where
  "bounded_page bound response =
     (case response of
        JObj kvs \<Rightarrow>
          (case (map_of kvs ''values'', map_of kvs ''total'') of
             (Some (JArr vs), Some (JNum t)) \<Rightarrow> 1 \<le> t \<and> t \<le> bound
           | _ \<Rightarrow> False)
      | _ \<Rightarrow> False)"

text \<open>\<open>Object.keys(v)\<close>\<close>

fun keys :: "jsval \<Rightarrow> string list" where
  "keys (JObj kvs) = map fst kvs"
| "keys v = []"

section \<open>Notions the handler claims use\<close>

text \<open>
  The handler's validation rejected the arguments: it returned the error envelope of an
  \<open>Error\<close> thrown by one of its own \<open>throw new Error(...)\<close> statements, all of which
  are argument checks. A failed remote call is rejected with the client's
  \<open>errorDetails\<close> object and a fault of the language is a \<open>TypeError\<close>; neither is
  an \<open>Error\<close> of the handler.
\<close>

definition is_validation_error :: "exn + tool_result \<Rightarrow> bool" where
  "is_validation_error outcome =
     (case outcome of
        Inl e \<Rightarrow> False
      | Inr result \<Rightarrow>
          (case content result of
             [ErrorText (Error message) operation] \<Rightarrow> isError result
           | _ \<Rightarrow> False))"

text \<open>A step an \<open>append_test_steps\<close> call accepts: an object with a truthy \<open>description\<close>.\<close>

definition well_formed_step :: "jsval \<Rightarrow> bool" where
  "well_formed_step step = (\<not> nullish step \<and> truthy (read_prop step ''description''))"

text \<open>A remote service that answers every request with status 200 and the same body.\<close>

definition always_reply :: "jsval \<Rightarrow> transport" where
  "always_reply body k rq = Inr \<lparr>res_status = 200, res_statusText = ''OK'', res_data = body\<rparr>"



section \<open>The other handlers that validate their arguments\<close>

subsection \<open>More of the client and of the configuration\<close>

definition client_getProject ::
  "transport \<Rightarrow> http_request list \<Rightarrow> jsval \<Rightarrow> (exn + jsval) \<times> http_request list" where
  "client_getProject http log projectId =
     request http log ''GET'' (''/projects/'' @ to_string projectId) JNull []"

definition client_getFolder ::
  "transport \<Rightarrow> http_request list \<Rightarrow> jsval \<Rightarrow> (exn + jsval) \<times> http_request list" where
  "client_getFolder http log folderId =
     request http log ''GET'' (''/folders/'' @ to_string folderId) JNull []"

definition client_createFolder ::
  "transport \<Rightarrow> http_request list \<Rightarrow> jsval \<Rightarrow> (exn + jsval) \<times> http_request list" where
  "client_createFolder http log folderData = request http log ''POST'' ''/folders'' folderData []"

definition client_getTestCases ::
  "transport \<Rightarrow> http_request list \<Rightarrow> (string \<times> jsval) list \<Rightarrow> (exn + jsval) \<times> http_request list" where
  "client_getTestCases http log params = request http log ''GET'' ''/testcases'' JNull params"

definition client_createTestCase ::
  "transport \<Rightarrow> http_request list \<Rightarrow> jsval \<Rightarrow> (exn + jsval) \<times> http_request list" where
  "client_createTestCase http log data = request http log ''POST'' ''/testcases'' data []"

definition client_getTestScript ::
  "transport \<Rightarrow> http_request list \<Rightarrow> jsval \<Rightarrow> (exn + jsval) \<times> http_request list" where
  "client_getTestScript http log testCaseKey =
     request http log ''GET'' (''/testcases/'' @ to_string testCaseKey @ ''/testscript'') JNull []"

definition client_createTestScript ::
  "transport \<Rightarrow> http_request list \<Rightarrow> jsval \<Rightarrow> jsval \<Rightarrow> (exn + jsval) \<times> http_request list" where
  "client_createTestScript http log testCaseKey scriptData =
     request http log ''POST'' (''/testcases/'' @ to_string testCaseKey @ ''/testscript'') scriptData []"

text \<open>\<open>projectKeyPattern: /^[A-Z][A-Z_0-9]+$/\<close> and \<open>folderIdPattern: /^\d+$/\<close>, both anchored.\<close>

definition projectKeyPattern :: regex where
  "projectKeyPattern = Seq Upper (Plus (Class ''ABCDEFGHIJKLMNOPQRSTUVWXYZ_0123456789''))"

definition projectKeyPattern_test :: "jsval \<Rightarrow> bool" where
  "projectKeyPattern_test projectKey = regex_full projectKeyPattern (to_string projectKey)"

definition folderIdPattern :: regex where
  "folderIdPattern = Plus Digit"

definition folderIdPattern_test :: "jsval \<Rightarrow> bool" where
  "folderIdPattern_test folderId = regex_full folderIdPattern (to_string folderId)"

definition invalid_projectKey :: exn where
  "invalid_projectKey = Error ''Invalid projectKey format. Must match pattern: [A-Z][A-Z_0-9]+''"

text \<open>\<open>typeof v === 'string'\<close> and \<open>Number.isInteger(v)\<close>\<close>

fun is_string :: "jsval \<Rightarrow> bool" where
  "is_string (JStr s) = True"
| "is_string v = False"

fun isInteger :: "jsval \<Rightarrow> bool" where
  "isInteger (JNum n) = True"
| "isInteger v = False"

text \<open>
  \<open>parseInt(v)\<close> for a value whose string form is a run of decimal digits, which is
  what the pattern test before each call of \<open>parseInt\<close> has established.
\<close>

definition parseInt :: "jsval \<Rightarrow> jsval" where
  "parseInt v = JNum (int (read_nat (to_string v)))"

text \<open>
  \<open>s.trim()\<close>, \<open>s.toLowerCase()\<close> and \<open>s.startsWith(k)\<close>, on strings of ASCII
  characters.
\<close>

definition is_space :: "char \<Rightarrow> bool" where
  "is_space c = (c \<in> set [CHR 0x09, CHR 0x0A, CHR 0x0B, CHR 0x0C, CHR 0x0D, CHR 0x20])"

definition trim :: "string \<Rightarrow> string" where
  "trim s = rev (dropWhile is_space (rev (dropWhile is_space s)))"

definition toLowerCase :: "string \<Rightarrow> string" where
  "toLowerCase s =
     map (\<lambda>c. case map_of (zip ''ABCDEFGHIJKLMNOPQRSTUVWXYZ'' ''abcdefghijklmnopqrstuvwxyz'') c of
                Some l \<Rightarrow> l
              | None \<Rightarrow> c) s"

definition startsWith :: "string \<Rightarrow> string \<Rightarrow> bool" where
  "startsWith s k = (take (length k) s = k)"

text \<open>
  The \<open>catch\<close> blocks of the handlers below: with a fixed operation text, or with
  one that reads a field of \<open>args\<close>.
\<close>

definition catch_fixed :: "string \<Rightarrow> exn \<Rightarrow> exn + tool_result" where
  "catch_fixed operation error =
     (case formatError error operation of
        Inl e \<Rightarrow> Inl e
      | Inr text \<Rightarrow> Inr \<lparr>content = [text], isError = True\<rparr>)"

definition catch_field :: "jsval \<Rightarrow> string \<Rightarrow> string \<Rightarrow> exn \<Rightarrow> exn + tool_result" where
  "catch_field args field doing error =
     (case get_prop args field of
        Inl e \<Rightarrow> Inl e
      | Inr v \<Rightarrow>
          (case formatError error (doing @ to_string v) of
             Inl e \<Rightarrow> Inl e
           | Inr text \<Rightarrow> Inr \<lparr>content = [text], isError = True\<rparr>))"

subsection \<open>\<open>get_project\<close>\<close>

definition getProject_try ::
  "transport \<Rightarrow> jsval \<Rightarrow> (exn + tool_result) \<times> http_request list" where
  "getProject_try http args =
     (if nullish args then (Inl TypeError, [])
      else
        let projectId = read_prop args ''projectId'' in
          if \<not> truthy projectId then (Inl (Error ''projectId is required''), [])
          else
            (case client_getProject http [] projectId of
               (Inl e, log) \<Rightarrow> (Inl e, log)
             | (Inr project, log) \<Rightarrow>
                 (Inr \<lparr>content = [JsonText project], isError = False\<rparr>, log)))"

definition getProject ::
  "transport \<Rightarrow> jsval \<Rightarrow> (exn + tool_result) \<times> http_request list" where
  "getProject http args =
     (case getProject_try http args of
        (Inl error, log) \<Rightarrow> (catch_field args ''projectId'' ''fetching project '' error, log)
      | (Inr result, log) \<Rightarrow> (Inr result, log))"

subsection \<open>\<open>get_folder\<close> and \<open>create_folder\<close>\<close>

definition getFolder_try ::
  "transport \<Rightarrow> jsval \<Rightarrow> (exn + tool_result) \<times> http_request list" where
  "getFolder_try http args =
     (if nullish args then (Inl TypeError, [])
      else
        let folderId = read_prop args ''folderId'' in
          if \<not> truthy folderId then (Inl (Error ''folderId is required''), [])
          else if \<not> folderIdPattern_test folderId then
            (Inl (Error ''Invalid folderId format. Must be a numeric ID.''), [])
          else
            (case client_getFolder http [] folderId of
               (Inl e, log) \<Rightarrow> (Inl e, log)
             | (Inr folder, log) \<Rightarrow>
                 (Inr \<lparr>content = [JsonText folder], isError = False\<rparr>, log)))"

definition getFolder ::
  "transport \<Rightarrow> jsval \<Rightarrow> (exn + tool_result) \<times> http_request list" where
  "getFolder http args =
     (case getFolder_try http args of
        (Inl error, log) \<Rightarrow> (catch_field args ''folderId'' ''fetching folder '' error, log)
      | (Inr result, log) \<Rightarrow> (Inr result, log))"

definition createFolder_try ::
  "transport \<Rightarrow> jsval \<Rightarrow> (exn + tool_result) \<times> http_request list" where
  "createFolder_try http args =
     (if nullish args then (Inl TypeError, [])
      else
        let name = read_prop args ''name'';
            projectKey = read_prop args ''projectKey'';
            parentFolderId = read_prop args ''parentFolderId'';
            folderType = read_prop args ''folderType'';
            selectedFolderType = js_or folderType (JStr ''TEST_CASE'')
        in
          if \<not> truthy name then (Inl (Error ''folder name is required''), [])
          else if \<not> truthy projectKey then (Inl (Error ''projectKey is required''), [])
          else if \<not> projectKeyPattern_test projectKey then (Inl invalid_projectKey, [])
          else if selectedFolderType \<notin> set [JStr ''TEST_CASE'', JStr ''TEST_PLAN'', JStr ''TEST_CYCLE''] then
            (Inl (Error ''folderType must be one of: TEST_CASE, TEST_PLAN, TEST_CYCLE''), [])
          else if truthy parentFolderId \<and> \<not> folderIdPattern_test parentFolderId then
            (Inl (Error ''Invalid parentFolderId format. Must be a numeric ID.''), [])
          else
            let folderData =
                  JObj ([(''name'', name), (''projectKey'', projectKey),
                         (''folderType'', selectedFolderType)]
                        @ (if truthy parentFolderId then [(''parentId'', parseInt parentFolderId)]
                           else []))
            in
              (case client_createFolder http [] folderData of
                 (Inl e, log) \<Rightarrow> (Inl e, log)
               | (Inr result, log) \<Rightarrow>
                   (Inr \<lparr>content =
                           [JsonText (JObj [(''message'', JStr ''Folder created successfully''),
                                            (''folder'', result)])],
                         isError = False\<rparr>,
                    log)))"

definition createFolder ::
  "transport \<Rightarrow> jsval \<Rightarrow> (exn + tool_result) \<times> http_request list" where
  "createFolder http args =
     (case createFolder_try http args of
        (Inl error, log) \<Rightarrow> (catch_fixed ''creating folder'' error, log)
      | (Inr result, log) \<Rightarrow> (Inr result, log))"


subsection \<open>\<open>list_test_cases\<close> and \<open>create_test_case\<close>\<close>

definition listTestCases_try ::
  "transport \<Rightarrow> jsval \<Rightarrow> (exn + tool_result) \<times> http_request list" where
  "listTestCases_try http args =
     (if nullish args then (Inl TypeError, [])
      else
        let projectKey = read_prop args ''projectKey'';
            folderId = read_prop args ''folderId'';
            maxResults = js_or (read_prop args ''maxResults'') (JNum defaultMaxResults);
            params =
              [(''projectKey'', projectKey), (''folderId'', folderId),
               (''maxResults'', maxResults),
               (''startAt'', js_or (read_prop args ''startAt'') (JNum 0))]
        in
          if truthy projectKey \<and> \<not> projectKeyPattern_test projectKey then (Inl invalid_projectKey, [])
          else if truthy folderId \<and> (\<not> isInteger folderId \<or> js_lt folderId 1) then
            (Inl (Error ''Invalid folderId format. Must be a positive integer.''), [])
          else
            (case client_getTestCases http [] params of
               (Inl e, log) \<Rightarrow> (Inl e, log)
             | (Inr response, log) \<Rightarrow>
                 if nullish response then (Inl TypeError, log)
                 else
                   (Inr \<lparr>content =
                           [JsonText (JObj
                              [(''testCases'', js_or (read_prop response ''values'') response),
                               (''total'',
                                  js_or (read_prop response ''total'') (read_prop response ''length'')),
                               (''startAt'', js_or (read_prop response ''startAt'') (JNum 0)),
                               (''maxResults'', js_or (read_prop response ''maxResults'') maxResults)])],
                         isError = False\<rparr>,
                    log)))"

definition listTestCases ::
  "transport \<Rightarrow> jsval \<Rightarrow> (exn + tool_result) \<times> http_request list" where
  "listTestCases http args =
     (case listTestCases_try http args of
        (Inl error, log) \<Rightarrow> (catch_fixed ''fetching test cases'' error, log)
      | (Inr result, log) \<Rightarrow> (Inr result, log))"

text \<open>
  The object \<open>testCaseData\<close> of \<open>create_test_case\<close>, once the arguments have passed
  the checks: \<open>name\<close> and \<open>projectKey\<close>, then each optional field that is truthy.
\<close>

definition createTestCase_data :: "jsval \<Rightarrow> jsval" where
  "createTestCase_data args =
     (let description = read_prop args ''description'';
          folderId = read_prop args ''folderId'';
          component = read_prop args ''component'';
          labels = read_prop args ''labels'';
          objective = read_prop args ''objective'';
          precondition = read_prop args ''precondition'';
          estimatedTime = read_prop args ''estimatedTime''
      in
        JObj ([(''name'', read_prop args ''name''), (''projectKey'', read_prop args ''projectKey'')]
              @ (if truthy description then [(''description'', description)] else [])
              @ (if truthy component then [(''component'', component)] else [])
              @ (if truthy labels
                 then [(''labels'', if isArray labels then labels else JArr [labels])]
                 else [])
              @ (if truthy objective then [(''objective'', objective)] else [])
              @ (if truthy precondition then [(''precondition'', precondition)] else [])
              @ (if truthy estimatedTime
                 then [(''estimatedTime'', js_times estimatedTime 60000)] else [])
              @ (if truthy folderId
                 then [(''folderId'', if is_string folderId then parseInt folderId else folderId)]
                 else [])))"

definition createTestCase_try ::
  "transport \<Rightarrow> jsval \<Rightarrow> (exn + tool_result) \<times> http_request list" where
  "createTestCase_try http args =
     (if nullish args then (Inl TypeError, [])
      else
        let name = read_prop args ''name'';
            projectKey = read_prop args ''projectKey'';
            folderId = read_prop args ''folderId''
        in
          if \<not> truthy name then (Inl (Error ''name is required''), [])
          else if \<not> truthy projectKey then (Inl (Error ''projectKey is required''), [])
          else if \<not> projectKeyPattern_test projectKey then (Inl invalid_projectKey, [])
          else if truthy folderId \<and> is_string folderId \<and> \<not> folderIdPattern_test folderId then
            (Inl (Error ''Invalid folderId format. Must be a numeric ID.''), [])
          else
            (case client_createTestCase http [] (createTestCase_data args) of
               (Inl e, log) \<Rightarrow> (Inl e, log)
             | (Inr result, log) \<Rightarrow>
                 (Inr \<lparr>content =
                         [JsonText (JObj [(''message'', JStr ''Test case created successfully''),
                                          (''testCase'', result)])],
                       isError = False\<rparr>,
                  log)))"

definition createTestCase ::
  "transport \<Rightarrow> jsval \<Rightarrow> (exn + tool_result) \<times> http_request list" where
  "createTestCase http args =
     (case createTestCase_try http args of
        (Inl error, log) \<Rightarrow> (catch_fixed ''creating test case'' error, log)
      | (Inr result, log) \<Rightarrow> (Inr result, log))"

subsection \<open>\<open>get_test_script\<close> and \<open>create_test_script\<close>\<close>

definition getTestScript_try ::
  "transport \<Rightarrow> jsval \<Rightarrow> (exn + tool_result) \<times> http_request list" where
  "getTestScript_try http args =
     (if nullish args then (Inl TypeError, [])
      else
        let testCaseKey = read_prop args ''testCaseKey'' in
          if \<not> truthy testCaseKey then (Inl (Error ''testCaseKey is required''), [])
          else if \<not> testCaseKeyPattern_test testCaseKey then (Inl invalid_key, [])
          else
            (case client_getTestScript http [] testCaseKey of
               (Inl e, log) \<Rightarrow> (Inl e, log)
             | (Inr script, log) \<Rightarrow>
                 (Inr \<lparr>content =
                         [JsonText (JObj
                            [(''testCaseKey'', testCaseKey),
                             (''testScript'', script),
                             (''note'', JStr ''Test script is returned in Gherkin format (BDD style)'')])],
                       isError = False\<rparr>,
                  log)))"

definition getTestScript ::
  "transport \<Rightarrow> jsval \<Rightarrow> (exn + tool_result) \<times> http_request list" where
  "getTestScript http args =
     (case getTestScript_try http args of
        (Inl error, log) \<Rightarrow> (catch_block args ''fetching test script for '' error, log)
      | (Inr result, log) \<Rightarrow> (Inr result, log))"

fun str_of :: "jsval \<Rightarrow> string" where
  "str_of (JStr s) = s"
| "str_of v = []"

definition invalid_type :: exn where
  "invalid_type =
     Error (''type must be either '' @ [CHR 0x22] @ ''bdd'' @ [CHR 0x22] @ '' (Gherkin) or ''
            @ [CHR 0x22] @ ''plain'' @ [CHR 0x22])"

definition createTestScript_try ::
  "transport \<Rightarrow> jsval \<Rightarrow> (exn + tool_result) \<times> http_request list" where
  "createTestScript_try http args =
     (if nullish args then (Inl TypeError, [])
      else
        let testCaseKey = read_prop args ''testCaseKey'';
            text = read_prop args ''text'';
            type = read_prop args ''type''
        in
          if \<not> truthy testCaseKey then (Inl (Error ''testCaseKey is required''), [])
          else if \<not> testCaseKeyPattern_test testCaseKey then (Inl invalid_key, [])
          else if \<not> truthy text then (Inl (Error ''text (script content) is required''), [])
          else if \<not> is_string text \<or> length (trim (str_of text)) = 0 then
            (Inl (Error ''text must be a non-empty string''), [])
          else if truthy type
                  \<and> (\<not> is_string type \<or> toLowerCase (str_of type) \<notin> set [''bdd'', ''plain'']) then
            (Inl invalid_type, [])
          else
            let scriptType = (if truthy type then toLowerCase (str_of type) else ''bdd'');
                scriptData = JObj [(''text'', JStr (trim (str_of text))), (''type'', JStr scriptType)]
            in
              (case client_createTestScript http [] testCaseKey scriptData of
                 (Inl e, log) \<Rightarrow> (Inl e, log)
               | (Inr result, log) \<Rightarrow>
                   (Inr \<lparr>content =
                           [JsonText (JObj
                              [(''message'',
                                  JStr (''Test script created/updated successfully for ''
                                        @ to_string testCaseKey)),
                               (''testCaseKey'', testCaseKey),
                               (''scriptType'', JStr scriptType),
                               (''result'', result),
                               (''warning'',
                                  JStr ''If this test case had existing test steps, they have been implicitly removed as test scripts and steps are mutually exclusive''),
                               (''note'',
                                  JStr (if scriptType = ''bdd''
                                        then ''Script should be in Gherkin format (Given/When/Then/And/But)''
                                        else ''Plain text script format''))])],
                         isError = False\<rparr>,
                    log)))"

definition createTestScript ::
  "transport \<Rightarrow> jsval \<Rightarrow> (exn + tool_result) \<times> http_request list" where
  "createTestScript http args =
     (case createTestScript_try http args of
        (Inl error, log) \<Rightarrow> (catch_block args ''creating test script for '' error, log)
      | (Inr result, log) \<Rightarrow> (Inr result, log))"


subsection \<open>\<open>create_bdd_test_script\<close>\<close>

text \<open>
  \<open>JSON.parse(JSON.stringify(v))\<close> for a value inside a document: a property whose
  value is \<open>undefined\<close> or a function is left out, and such an array element is
  \<open>null\<close>, as is \<open>NaN\<close>.
\<close>

fun is_fun :: "jsval \<Rightarrow> bool" where
  "is_fun (JFun f) = True"
| "is_fun v = False"

fun json_roundtrip :: "jsval \<Rightarrow> jsval" where
  "json_roundtrip JUndefined = JNull"
| "json_roundtrip JNull = JNull"
| "json_roundtrip (JBool b) = JBool b"
| "json_roundtrip (JNum n) = JNum n"
| "json_roundtrip JNaN = JNull"
| "json_roundtrip (JStr s) = JStr s"
| "json_roundtrip (JArr xs) = JArr (map json_roundtrip xs)"
| "json_roundtrip (JObj kvs) =
     JObj (map (\<lambda>(k, v). (k, json_roundtrip v))
             (filter (\<lambda>(k, v). v \<noteq> JUndefined \<and> \<not> is_fun v) kvs))"
| "json_roundtrip (JFun f) = JNull"

text \<open>
  \<open>JSON.parse(text)\<close> of a handler's text: the text of an error is not JSON, and
  \<open>JSON.stringify\<close> of \<open>undefined\<close> or of a function is \<open>undefined\<close>, which does not
  parse either. \<open>None\<close> is the \<open>SyntaxError\<close>.
\<close>

fun json_parse :: "content_item \<Rightarrow> jsval option" where
  "json_parse (JsonText v) = (if v = JUndefined \<or> is_fun v then None else Some (json_roundtrip v))"
| "json_parse (ErrorText e operation) = None"

text \<open>The own enumerable properties an object spread \<open>{...v}\<close> copies.\<close>

fun own_entries :: "jsval \<Rightarrow> (string \<times> jsval) list" where
  "own_entries (JObj kvs) = kvs"
| "own_entries (JArr xs) = map (\<lambda>i. (show_nat i, xs ! i)) [0..<length xs]"
| "own_entries (JStr s) = map (\<lambda>i. (show_nat i, JStr [s ! i])) [0..<length s]"
| "own_entries v = []"

text \<open>
  The text of this handler's result is that of the other handlers, or the text it prints
  when it cannot parse the text \<open>item\<close> of \<open>create_test_script\<close>:
  \<open>JSON.stringify\<close> of \<open>{error, originalResponse, parseError, bddHelper}\<close>, with
  \<open>item\<close> as the original response and \<open>helper\<close> as \<open>bddHelper\<close>.
\<close>

datatype bdd_text = Plain content_item | ParseFailure content_item jsval

record bdd_result =
  bdd_content :: "bdd_text list"
  bdd_isError :: bool

text \<open>
  The callback of \<open>steps.forEach\<close>, run over the steps from position \<open>index\<close>: each
  step is checked and its line appended to the script; the first step that throws ends
  the loop.
\<close>

fun bdd_steps :: "nat \<Rightarrow> jsval list \<Rightarrow> string \<Rightarrow> exn + string" where
  "bdd_steps index [] gherkinScript = Inr gherkinScript"
| "bdd_steps index (step # steps) gherkinScript =
     (if \<not> is_string step \<or> length (trim (str_of step)) = 0 then
        Inl (Error (''Step '' @ show_nat (index + 1) @ '' must be a non-empty string''))
      else
        let stepText = trim (str_of step) in
          if \<not> list_ex (\<lambda>keyword. startsWith (toLowerCase stepText) (toLowerCase keyword))
                  [''Given'', ''When'', ''Then'', ''And'', ''But''] then
            Inl (Error (''Step '' @ show_nat (index + 1)
                        @ '' must start with a Gherkin keyword: Given, When, Then, And, or But''))
          else bdd_steps (Suc index) steps (gherkinScript @ ''    '' @ stepText @ [CHR 0x0A]))"

text \<open>The script text: the header lines, then the lines of the steps.\<close>

definition gherkin_script :: "jsval \<Rightarrow> jsval \<Rightarrow> jsval \<Rightarrow> exn + string" where
  "gherkin_script feature scenario steps =
     (let header =
            (if truthy feature then ''Feature: '' @ to_string feature @ [CHR 0x0A, CHR 0x0A] else [])
            @ (if truthy scenario then ''Scenario: '' @ to_string scenario @ [CHR 0x0A] else [])
      in
        if truthy steps \<and> isArray steps then
          (if length (elements steps) = 0 then Inl (Error ''At least one step must be provided'')
           else bdd_steps 0 (elements steps) header)
        else if \<not> truthy feature \<and> \<not> truthy scenario then
          Inl (Error ''Either steps array or feature/scenario text must be provided'')
        else Inr header)"

definition createBddTestScript_try ::
  "transport \<Rightarrow> jsval \<Rightarrow> (exn + bdd_result) \<times> http_request list" where
  "createBddTestScript_try http args =
     (if nullish args then (Inl TypeError, [])
      else
        let testCaseKey = read_prop args ''testCaseKey'';
            feature = read_prop args ''feature'';
            scenario = read_prop args ''scenario'';
            steps = read_prop args ''steps''
        in
          if \<not> truthy testCaseKey then (Inl (Error ''testCaseKey is required''), [])
          else if \<not> testCaseKeyPattern_test testCaseKey then (Inl invalid_key, [])
          else
            (case gherkin_script feature scenario steps of
               Inl e \<Rightarrow> (Inl e, [])
             | Inr gherkinScript \<Rightarrow>
                 (case createTestScript http
                         (JObj [(''testCaseKey'', testCaseKey), (''text'', JStr gherkinScript),
                                (''type'', JStr ''bdd'')]) of
                    (Inl e, log) \<Rightarrow> (Inl e, log)
                  | (Inr result, log) \<Rightarrow>
                      (case content result of
                         [] \<Rightarrow> (Inl TypeError, log)
                       | originalContent # others \<Rightarrow>
                           let bddHelper =
                                 JObj [(''feature'', feature), (''scenario'', scenario),
                                       (''stepsCount'',
                                          if truthy steps then read_prop steps ''length'' else JNum 0),
                                       (''generatedScript'', JStr gherkinScript)]
                           in
                             (case json_parse originalContent of
                                None \<Rightarrow>
                                  (Inr \<lparr>bdd_content = [ParseFailure originalContent bddHelper],
                                        bdd_isError = True\<rparr>, log)
                              | Some parsedContent \<Rightarrow>
                                  (Inr \<lparr>bdd_content =
                                          [Plain (JsonText (JObj
                                             (obj_set (fromEntries (own_entries parsedContent))
                                                ''bddHelper'' bddHelper)))],
                                        bdd_isError = False\<rparr>, log))))))"

definition createBddTestScript ::
  "transport \<Rightarrow> jsval \<Rightarrow> (exn + bdd_result) \<times> http_request list" where
  "createBddTestScript http args =
     (case createBddTestScript_try http args of
        (Inl error, log) \<Rightarrow>
          (case catch_block args ''creating BDD test script for '' error of
             Inl e \<Rightarrow> Inl e
           | Inr result \<Rightarrow>
               Inr \<lparr>bdd_content = map Plain (content result), bdd_isError = isError result\<rparr>,
           log)
      | (Inr result, log) \<Rightarrow> (Inr result, log))"


definition is_validation_error_bdd :: "exn + bdd_result \<Rightarrow> bool" where
  "is_validation_error_bdd outcome =
     (case outcome of
        Inl e \<Rightarrow> False
      | Inr result \<Rightarrow>
          (case bdd_content result of
             [Plain (ErrorText (Error message) operation)] \<Rightarrow> bdd_isError result
           | _ \<Rightarrow> False))"

section \<open>Properties\<close>

subsection \<open>Pagination against a paging service\<close>

lemma ceil_div_le: "0 < p \<Longrightarrow> ceil_div n p \<le> m \<longleftrightarrow> n \<le> m * p"
proof -
  assume p: "0 < p"
  have "(n + p - 1) div p < Suc m \<longleftrightarrow> n + p - 1 < Suc m * p"
    using p by (simp add: div_less_iff_less_mult)
  then show ?thesis using p unfolding ceil_div_def by auto
qed

lemma append_page_envelope:
  "map_of kvs ''values'' = Some (JArr vs) \<Longrightarrow> append_page acc (JObj kvs) = Inr (acc @ vs)"
  by (simp add: append_page_def get_prop_def)

lemma append_page_page_response:
  "append_page acc (page_response xs p s) = Inr (acc @ take (nat p) (drop (nat s) xs))"
  by (simp add: page_response_def append_page_envelope)

lemma break_page_response:
  "getAllPaginated_break p acc (page_response xs p s) =
     ((xs \<noteq> [] \<and> length xs \<le> length acc) \<or> int (length (take (nat p) (drop (nat s) xs))) < p)"
  by (auto simp: getAllPaginated_break_def getAllPaginated_total_def page_response_def js_or_def
                 js_ge_def js_lt_def opt_prop_def)

lemma break_steps_page_response:
  "getAllTestSteps_break p acc (page_response xs p s) =
     (length xs \<le> length acc \<or> int (length (take (nat p) (drop (nat s) xs))) < p)"
  by (auto simp: getAllTestSteps_break_def getAllTestSteps_total_def page_response_def js_or_def
                 js_ge_def js_lt_def opt_prop_def)

lemma getAllPaginated_loop_step:
  "getAllPaginated_loop (paged_server xs) (int p) acc (int s) k =
     (if (xs \<noteq> [] \<and> length xs \<le> length (acc @ take p (drop s xs)))
          \<or> length (take p (drop s xs)) < p
      then Some (Inr (acc @ take p (drop s xs)), Suc k)
      else getAllPaginated_loop (paged_server xs) (int p) (acc @ take p (drop s xs)) (int (s + p)) (Suc k))"
  by (subst getAllPaginated_loop.simps)
     (simp add: paged_server_def append_page_page_response break_page_response)

lemma getAllPaginated_loop_paged:
  assumes p: "0 < p"
  shows "k * p < length xs \<or> k = 0 \<Longrightarrow>
     getAllPaginated_loop (paged_server xs) (int p) (take (k * p) xs) (int (k * p)) k
       = Some (Inr xs, max (Suc k) (ceil_div (length xs) p))"
proof (induction "length xs - k * p" arbitrary: k rule: less_induct)
  case less
  let ?n = "length xs"
  have acc: "take (k * p) xs @ take p (drop (k * p) xs) = take (Suc k * p) xs"
    by (simp add: take_add[symmetric] add.commute)
  have st: "k * p + p = Suc k * p" by simp
  show ?case
  proof (cases "?n \<le> Suc k * p")
    case True
    have brk: "(xs \<noteq> [] \<and> ?n \<le> length (take (Suc k * p) xs)) \<or> length (take p (drop (k * p) xs)) < p"
      using True less.prems p by (cases "xs = []") auto
    have c: "max (Suc k) (ceil_div ?n p) = Suc k"
      using ceil_div_le[OF p, of ?n "Suc k"] True by simp
    have full: "take (Suc k * p) xs = xs" using True by simp
    show ?thesis
      unfolding getAllPaginated_loop_step[of xs p _ "k * p"] acc c
      using brk full by presburger
  next
    case False
    have nobrk: "\<not> ((xs \<noteq> [] \<and> ?n \<le> length (take (Suc k * p) xs)) \<or> length (take p (drop (k * p) xs)) < p)"
      using False p by auto
    have c: "max (Suc (Suc k)) (ceil_div ?n p) = max (Suc k) (ceil_div ?n p)"
      using ceil_div_le[OF p, of ?n "Suc k"] False by simp
    have IH: "getAllPaginated_loop (paged_server xs) (int p) (take (Suc k * p) xs) (int (Suc k * p)) (Suc k)
       = Some (Inr xs, max (Suc (Suc k)) (ceil_div (length xs) p))"
      using less.hyps[of "Suc k"] False p by simp
    show ?thesis
      unfolding getAllPaginated_loop_step[of xs p _ "k * p"] acc st
      using nobrk IH c by presburger
  qed
qed


lemma client_getTestSteps_steps_server:
  "client_getTestSteps (steps_server xs) log key [(''maxResults'', JNum 100), (''startAt'', JNum (100 * int k))]
     = (Inr (page_response xs 100 (100 * int k)), log @ [steps_request key k])"
  by (simp add: client_getTestSteps_def request_def request_config_def steps_server_def
                steps_request_def spread2_def fromEntries_def)

lemma getAllTestSteps_loop_step:
  "getAllTestSteps_loop (steps_server xs) key acc (100 * int k) log =
     (if length xs \<le> length (acc @ take 100 (drop (100 * k) xs))
          \<or> length (take 100 (drop (100 * k) xs)) < 100
      then Some (Inr (acc @ take 100 (drop (100 * k) xs)), log @ [steps_request key k])
      else getAllTestSteps_loop (steps_server xs) key (acc @ take 100 (drop (100 * k) xs))
             (100 * int (Suc k)) (log @ [steps_request key k]))"
proof -
  have n: "nat (100 * int k) = 100 * k" by (simp add: nat_mult_distrib)
  have a: "100 * int k + 100 = 100 * int (Suc k)" by simp
  show ?thesis
    apply (subst getAllTestSteps_loop.simps)
    apply (simp only: client_getTestSteps_steps_server prod.case sum.case
        append_page_page_response break_steps_page_response n a)
    apply (simp del: of_nat_Suc)
    done
qed

lemma getAllTestSteps_loop_paged:
  "k * 100 < length xs \<or> k = 0 \<Longrightarrow>
     getAllTestSteps_loop (steps_server xs) key (take (100 * k) xs) (100 * int k) log
       = Some (Inr xs, log @ map (steps_request key) [k..<max (Suc k) (ceil_div (length xs) 100)])"
proof (induction "length xs - k * 100" arbitrary: k log rule: less_induct)
  case less
  let ?n = "length xs"
  have acc: "take (100 * k) xs @ take 100 (drop (100 * k) xs) = take (100 * Suc k) xs"
    by (simp add: take_add[symmetric] add.commute)
  show ?case
  proof (cases "?n \<le> 100 * Suc k")
    case True
    have brk: "?n \<le> length (take (100 * Suc k) xs) \<or> length (take 100 (drop (100 * k) xs)) < 100"
      using True by auto
    have c: "max (Suc k) (ceil_div ?n 100) = Suc k"
      using ceil_div_le[of 100 ?n "Suc k"] True by simp
    have full: "take (100 * Suc k) xs = xs" using True by simp
    have "getAllTestSteps_loop (steps_server xs) key (take (100 * k) xs) (100 * int k) log
            = Some (Inr xs, log @ [steps_request key k])"
      unfolding getAllTestSteps_loop_step[of xs key _ k] acc using brk full by presburger
    then show ?thesis unfolding c by simp
  next
    case False
    have nobrk: "\<not> (?n \<le> length (take (100 * Suc k) xs) \<or> length (take 100 (drop (100 * k) xs)) < 100)"
      using False by auto
    have c: "max (Suc (Suc k)) (ceil_div ?n 100) = max (Suc k) (ceil_div ?n 100)"
      and c2: "Suc k < max (Suc k) (ceil_div ?n 100)"
      using ceil_div_le[of 100 ?n "Suc k"] False by simp_all
    have IH: "getAllTestSteps_loop (steps_server xs) key (take (100 * Suc k) xs) (100 * int (Suc k))
                (log @ [steps_request key k])
       = Some (Inr xs, (log @ [steps_request key k])
                 @ map (steps_request key) [Suc k..<max (Suc (Suc k)) (ceil_div (length xs) 100)])"
      using less.hyps[of "Suc k"] False by simp
    have "getAllTestSteps_loop (steps_server xs) key (take (100 * k) xs) (100 * int k) log
           = Some (Inr xs, (log @ [steps_request key k])
                 @ map (steps_request key) [Suc k..<max (Suc k) (ceil_div (length xs) 100)])"
      unfolding getAllTestSteps_loop_step[of xs key _ k] acc using nobrk IH c by presburger
    then show ?thesis using c2 by (simp add: upt_conv_Cons)
  qed
qed


lemma key_test_nonempty: "testCaseKeyPattern_test (JStr key) \<Longrightarrow> key \<noteq> []"
  by (auto simp: testCaseKeyPattern_test_def testCaseKeyPattern_def Plus_def)

lemma key_PROJ_T1: "testCaseKeyPattern_test (JStr ''PROJ-T1'')"
  by (simp add: testCaseKeyPattern_test_def testCaseKeyPattern_def Plus_def is_digit_def)

text \<open>
  Against the service that reports no count, \<open>getAllPaginated\<close> has \<open>total\<close>
  undefined, so only a short page ends the loop: it fetches until a page has fewer than
  \<open>p\<close> items, which is the page after the last full one.
\<close>

lemma append_page_page_without_total:
  "append_page acc (page_without_total xs p s) = Inr (acc @ take (nat p) (drop (nat s) xs))"
  by (simp add: page_without_total_def append_page_envelope)

lemma break_page_without_total:
  "getAllPaginated_break p acc (page_without_total xs p s) =
     (int (length (take (nat p) (drop (nat s) xs))) < p)"
  by (auto simp: getAllPaginated_break_def getAllPaginated_total_def page_without_total_def js_or_def
                 js_ge_def js_lt_def opt_prop_def)

lemma getAllPaginated_loop_uncounted_step:
  "getAllPaginated_loop (uncounted_server xs) (int p) acc (int s) k =
     (if length (take p (drop s xs)) < p
      then Some (Inr (acc @ take p (drop s xs)), Suc k)
      else getAllPaginated_loop (uncounted_server xs) (int p) (acc @ take p (drop s xs)) (int (s + p)) (Suc k))"
  by (subst getAllPaginated_loop.simps)
     (simp add: uncounted_server_def append_page_page_without_total break_page_without_total)

lemma getAllPaginated_loop_uncounted:
  assumes "0 < p"
  shows "k * p \<le> length xs \<Longrightarrow>
     getAllPaginated_loop (uncounted_server xs) (int p) (take (k * p) xs) (int (k * p)) k
       = Some (Inr xs, Suc (length xs div p))"
proof (induction "length xs - k * p" arbitrary: k rule: less_induct)
  case less
  have app: "take (k * p) xs @ take p (drop (k * p) xs) = take (Suc k * p) xs"
    by (simp add: take_add[symmetric] add.commute)
  show ?case
  proof (cases "length xs < Suc k * p")
    case True
    then have short: "length (take p (drop (k * p) xs)) < p"
      using less.prems by (simp add: less_diff_conv2)
    have all: "take (Suc k * p) xs = xs" using True by simp
    have d: "length xs div p = k"
      using less.prems True by (intro div_nat_eqI) (simp_all add: mult.commute)
    show ?thesis
      by (subst getAllPaginated_loop_uncounted_step) (simp only: short if_True app all d)
  next
    case False
    then have full: "\<not> length (take p (drop (k * p) xs)) < p" by simp
    have le: "Suc k * p \<le> length xs" using False by simp
    have "length xs - Suc k * p < length xs - k * p" using le assms by simp
    from less.hyps[OF this le]
    have IH: "getAllPaginated_loop (uncounted_server xs) (int p) (take (Suc k * p) xs)
                (int (Suc k * p)) (Suc k) = Some (Inr xs, Suc (length xs div p))" .
    have s: "k * p + p = Suc k * p" by simp
    show ?thesis
      by (subst getAllPaginated_loop_uncounted_step) (simp only: full if_False app s IH)
  qed
qed

lemma getAllPaginated_uncounted:
  assumes "1 \<le> p"
  shows "getAllPaginated (uncounted_server xs) (Some (int p)) = Some (Inr xs, Suc (length xs div p))"
proof -
  have "getAllPaginated_loop (uncounted_server xs) (int p) (take (0 * p) xs) (int (0 * p)) 0
          = Some (Inr xs, Suc (length xs div p))"
    using assms by (intro getAllPaginated_loop_uncounted) simp_all
  then show ?thesis by (simp add: getAllPaginated_def)
qed

text \<open>
  The handler's loop against the same service: its \<open>total\<close> falls back to 0, the test
  \<open>allSteps.length >= total\<close> holds at once, and the run ends after the first page
  whatever the length of the result set.
\<close>

lemma break_steps_page_without_total:
  "getAllTestSteps_break p acc (page_without_total xs p s)"
  by (simp add: getAllTestSteps_break_def getAllTestSteps_total_def page_without_total_def js_or_def
                js_ge_def)

lemma client_getTestSteps_uncounted:
  "client_getTestSteps (uncounted_steps_server xs) log key
       [(''maxResults'', JNum 100), (''startAt'', JNum (100 * int k))]
     = (Inr (page_without_total xs 100 (100 * int k)), log @ [steps_request key k])"
  by (simp add: client_getTestSteps_def request_def request_config_def uncounted_steps_server_def
                steps_request_def spread2_def fromEntries_def)

lemma getAllTestSteps_loop_uncounted:
  "getAllTestSteps_loop (uncounted_steps_server xs) key [] 0 []
     = Some (Inr (take 100 xs), [steps_request key 0])"
proof -
  have c: "client_getTestSteps (uncounted_steps_server xs) [] key
               [(''maxResults'', JNum 100), (''startAt'', JNum 0)]
     = (Inr (page_without_total xs 100 0), [steps_request key 0])"
    using client_getTestSteps_uncounted[of xs "[]" key 0] by simp
  show ?thesis
    by (subst getAllTestSteps_loop.simps)
       (simp add: c append_page_page_without_total break_steps_page_without_total)
qed

text \<open>
  Claim C1, as the code has it. A result set \<open>xs\<close> of length \<open>n\<close> is served in page
  envelopes, \<open>p \<ge> 1\<close> items to a page.

  \<^item> When the envelopes report \<open>total = n\<close>, \<open>getAllPaginated\<close> returns exactly \<open>xs\<close>
    (all \<open>n\<close> items, in the server's order), and the \<open>get_all_test_steps\<close> handler, with
    its page size of 100, returns an envelope with \<open>testSteps = xs\<close> and
    \<open>totalSteps = n\<close>. The number of page fetches is \<open>ceil(n/p)\<close> when \<open>n \<ge> 1\<close> and one
    when the set is empty: the loop fetches before it tests. The handler's fetches are
    the requests for the offsets 0, 100, 200, ...

  \<^item> When the envelopes report no count, \<open>getAllPaginated\<close> still returns exactly
    \<open>xs\<close>, with \<open>floor(n/p) + 1\<close> fetches: that is \<open>ceil(n/p)\<close> when the last page is
    short and not empty, and one fetch more when \<open>p\<close> divides \<open>n\<close>, since only the
    empty page after the last full one ends the loop.
\<close>

theorem pagination_full_pages:
  assumes "1 \<le> p" and "testCaseKeyPattern_test (JStr key)"
  shows "getAllPaginated (paged_server xs) (Some (int p))
           = Some (Inr xs, max 1 (ceil_div (length xs) p))
       \<and> getAllTestSteps (steps_server xs) (JObj [(''testCaseKey'', JStr key)])
           = Some
               (Inr \<lparr>content =
                       [JsonText (JObj
                          [(''testCaseKey'', JStr key),
                           (''testSteps'', JArr xs),
                           (''totalSteps'', JNum (int (length xs))),
                           (''note'', JStr ''All test steps retrieved (pagination handled automatically)'')])],
                     isError = False\<rparr>,
                map (steps_request (JStr key)) [0..<max 1 (ceil_div (length xs) 100)])
       \<and> getAllPaginated (uncounted_server xs) (Some (int p))
           = Some (Inr xs, Suc (length xs div p))"
proof (intro conjI)
  have "getAllPaginated_loop (paged_server xs) (int p) (take (0 * p) xs) (int (0 * p)) 0
          = Some (Inr xs, max (Suc 0) (ceil_div (length xs) p))"
    using assms(1) by (intro getAllPaginated_loop_paged) simp_all
  then show "getAllPaginated (paged_server xs) (Some (int p))
           = Some (Inr xs, max 1 (ceil_div (length xs) p))"
    by (simp add: getAllPaginated_def)
next
  have loop: "getAllTestSteps_loop (steps_server xs) (JStr key) (take (100 * 0) xs) (100 * int 0) []
          = Some (Inr xs, [] @ map (steps_request (JStr key)) [0..<max (Suc 0) (ceil_div (length xs) 100)])"
    by (intro getAllTestSteps_loop_paged) simp
  have key: "key \<noteq> []" using assms(2) by (rule key_test_nonempty)
  show "getAllTestSteps (steps_server xs) (JObj [(''testCaseKey'', JStr key)])
           = Some
               (Inr \<lparr>content =
                       [JsonText (JObj
                          [(''testCaseKey'', JStr key),
                           (''testSteps'', JArr xs),
                           (''totalSteps'', JNum (int (length xs))),
                           (''note'', JStr ''All test steps retrieved (pagination handled automatically)'')])],
                     isError = False\<rparr>,
                map (steps_request (JStr key)) [0..<max 1 (ceil_div (length xs) 100)])"
    using loop key assms(2) by (simp add: getAllTestSteps_def getAllTestSteps_try_def Let_def)
next
  show "getAllPaginated (uncounted_server xs) (Some (int p)) = Some (Inr xs, Suc (length xs div p))"
    using assms(1) by (rule getAllPaginated_uncounted)
qed

text \<open>
  The scenario of 250 steps: three fetches (offsets 0, 100 and 200) and
  \<open>totalSteps = 250\<close>. Without a count, \<open>getAllPaginated\<close> also takes three fetches for
  the 250 items.
\<close>

theorem pagination_full_pages_witness:
  "getAllPaginated (paged_server (replicate 250 JNull)) (Some 100)
       = Some (Inr (replicate 250 JNull), 3)
   \<and> getAllTestSteps (steps_server (replicate 250 JNull)) (JObj [(''testCaseKey'', JStr ''PROJ-T1'')])
       = Some
           (Inr \<lparr>content =
                   [JsonText (JObj
                      [(''testCaseKey'', JStr ''PROJ-T1''),
                       (''testSteps'', JArr (replicate 250 JNull)),
                       (''totalSteps'', JNum 250),
                       (''note'', JStr ''All test steps retrieved (pagination handled automatically)'')])],
                 isError = False\<rparr>,
            [steps_request (JStr ''PROJ-T1'') 0, steps_request (JStr ''PROJ-T1'') 1,
             steps_request (JStr ''PROJ-T1'') 2])
   \<and> getAllPaginated (uncounted_server (replicate 250 JNull)) (Some 100)
       = Some (Inr (replicate 250 JNull), 3)"
proof -
  have p: "1 \<le> (100::nat)" by simp
  have c: "max (Suc 0) (ceil_div 250 100) = 3" by (simp add: ceil_div_def)
  have u: "[0..<3] = [0, 1, 2]" by (simp add: upt_conv_Cons)
  show ?thesis
    using pagination_full_pages[OF p key_PROJ_T1, of "replicate 250 JNull"]
    by (simp add: c u)
qed

text \<open>
  Claim C1 as stated fails on the code, in four ways.

  \<^item> The empty result set: \<open>ceil(0/1) = 0\<close>, and the engine makes one fetch.

  \<^item> A service that reports no count and serves 200 items as two full pages of 100 and an
    empty page: \<open>getAllPaginated\<close> returns the 200 items after three fetches, where
    \<open>ceil(200/100) = 2\<close>.

  \<^item> A service that reports no count and serves 250 steps as pages of 100, 100 and 50:
    \<open>get_all_test_steps\<close> makes one fetch and returns the first 100 steps with
    \<open>totalSteps = 100\<close>.

  \<^item> A service that serves the 250 items as bare arrays of 100, 100 and 50:
    \<open>getAllPaginated\<close> is rejected with a \<open>TypeError\<close> after the first fetch and returns
    no item.
\<close>

theorem pagination_as_stated_counterexample:
  "getAllPaginated (paged_server []) (Some 1) = Some (Inr [], 1)
   \<and> ceil_div (length ([] :: jsval list)) 1 = 0
   \<and> getAllPaginated (uncounted_server (replicate 200 JNull)) (Some 100)
       = Some (Inr (replicate 200 JNull), 3)
   \<and> ceil_div (length (replicate 200 JNull)) 100 = 2
   \<and> getAllTestSteps (uncounted_steps_server (replicate 250 JNull))
         (JObj [(''testCaseKey'', JStr ''PROJ-T1'')])
       = Some
           (Inr \<lparr>content =
                   [JsonText (JObj
                      [(''testCaseKey'', JStr ''PROJ-T1''),
                       (''testSteps'', JArr (replicate 100 JNull)),
                       (''totalSteps'', JNum 100),
                       (''note'', JStr ''All test steps retrieved (pagination handled automatically)'')])],
                 isError = False\<rparr>,
            [steps_request (JStr ''PROJ-T1'') 0])
   \<and> getAllPaginated (array_server (replicate 250 JNull)) (Some 100) = Some (Inl TypeError, 1)"
proof -
  have a: "getAllPaginated_loop (paged_server []) 1 [] 0 0 = Some (Inr [], 1)"
    by (subst getAllPaginated_loop.simps)
       (simp add: paged_server_def append_page_page_response break_page_response)
  have b: "getAllPaginated (uncounted_server (replicate 200 JNull)) (Some 100)
             = Some (Inr (replicate 200 JNull), 3)"
    using getAllPaginated_uncounted[of 100 "replicate 200 JNull"] by simp
  have c: "getAllTestSteps_loop (uncounted_steps_server (replicate 250 JNull)) (JStr ''PROJ-T1'') [] 0 []
     = Some (Inr (replicate 100 JNull), [steps_request (JStr ''PROJ-T1'') 0])"
    by (simp add: getAllTestSteps_loop_uncounted)
  have d: "getAllPaginated_loop (array_server (replicate 250 JNull)) 100 [] 0 0
             = Some (Inl TypeError, 1)"
    by (subst getAllPaginated_loop.simps)
       (simp add: array_server_def append_page_def get_prop_def)
  have e: "getAllTestSteps (uncounted_steps_server (replicate 250 JNull))
         (JObj [(''testCaseKey'', JStr ''PROJ-T1'')])
       = Some
           (Inr \<lparr>content =
                   [JsonText (JObj
                      [(''testCaseKey'', JStr ''PROJ-T1''),
                       (''testSteps'', JArr (replicate 100 JNull)),
                       (''totalSteps'', JNum 100),
                       (''note'', JStr ''All test steps retrieved (pagination handled automatically)'')])],
                 isError = False\<rparr>,
            [steps_request (JStr ''PROJ-T1'') 0])"
    using c key_PROJ_T1 by (simp add: getAllTestSteps_def getAllTestSteps_try_def Let_def)
  show ?thesis
    using a b d e by (simp add: getAllPaginated_def ceil_div_def)
qed

subsection \<open>Termination of the pagination loops\<close>

lemma short_pageE:
  assumes "short_page p r"
  obtains kvs vs where "r = JObj kvs" "map_of kvs ''values'' = Some (JArr vs)" "int (length vs) < p"
  | vs where "r = JArr vs"
  using assms unfolding short_page_def
  by (auto split: jsval.splits option.splits)

lemma bounded_pageE:
  assumes "bounded_page b r"
  obtains kvs vs t where "r = JObj kvs" "map_of kvs ''values'' = Some (JArr vs)"
     "map_of kvs ''total'' = Some (JNum t)" "1 \<le> t" "t \<le> b"
  using assms unfolding bounded_page_def
  by (auto split: jsval.splits option.splits)

lemma append_page_array: "append_page acc (JArr vs) = Inl TypeError"
  by (simp add: append_page_def get_prop_def)

lemma break_short_envelope:
  "map_of kvs ''values'' = Some (JArr vs) \<Longrightarrow> int (length vs) < p \<Longrightarrow>
     getAllPaginated_break p acc (JObj kvs) \<and> getAllTestSteps_break p acc (JObj kvs)"
  by (simp add: getAllPaginated_break_def getAllTestSteps_break_def opt_prop_def js_lt_def)

lemma break_bounded_paginated:
  "map_of kvs ''values'' = Some (JArr vs) \<Longrightarrow> map_of kvs ''total'' = Some (JNum t) \<Longrightarrow> 1 \<le> t \<Longrightarrow>
     getAllPaginated_break p acc (JObj kvs) = (t \<le> int (length acc) \<or> int (length vs) < p)"
  by (simp add: getAllPaginated_break_def getAllPaginated_total_def opt_prop_def js_lt_def js_ge_def js_or_def)

lemma break_bounded_steps:
  "map_of kvs ''values'' = Some (JArr vs) \<Longrightarrow> map_of kvs ''total'' = Some (JNum t) \<Longrightarrow> 1 \<le> t \<Longrightarrow>
     getAllTestSteps_break p acc (JObj kvs) = (t \<le> int (length acc) \<or> int (length vs) < p)"
  by (simp add: getAllTestSteps_break_def getAllTestSteps_total_def opt_prop_def js_lt_def js_ge_def js_or_def)

text \<open>One iteration either ends the loop or goes on with one more call.\<close>

lemma getAllPaginated_loop_cases:
  "(\<exists>out. getAllPaginated_loop rf p acc s c = Some out)
   \<or> (\<exists>acc'. getAllPaginated_loop rf p acc s c = getAllPaginated_loop rf p acc' (s + p) (Suc c))"
proof (cases "rf c (PageRequest p s)")
  case (Inl e)
  then show ?thesis by (subst getAllPaginated_loop.simps) simp
next
  case (Inr r)
  show ?thesis
  proof (cases "append_page acc r")
    case (Inl e)
    then show ?thesis using Inr by (subst getAllPaginated_loop.simps) simp
  next
    case app: (Inr acc')
    show ?thesis
    proof (cases "getAllPaginated_break p acc' r")
      case True
      then show ?thesis using Inr app by (subst getAllPaginated_loop.simps) simp
    next
      case False
      have "getAllPaginated_loop rf p acc s c = getAllPaginated_loop rf p acc' (s + p) (Suc c)"
        using Inr app False by (subst getAllPaginated_loop.simps) simp
      then show ?thesis by blast
    qed
  qed
qed

lemma getAllPaginated_loop_short:
  assumes "rf k (PageRequest p (int k * p)) = Inr r" and "short_page p r"
  shows "c \<le> k \<Longrightarrow> \<exists>out. getAllPaginated_loop rf p acc (int c * p) c = Some out"
proof (induction "k - c" arbitrary: c acc)
  case 0
  then have c: "c = k" by simp
  from assms(2) show ?case
  proof (cases rule: short_pageE)
    case (1 kvs vs)
    then show ?thesis
      unfolding c
      by (subst getAllPaginated_loop.simps)
         (simp add: assms(1) append_page_envelope break_short_envelope)
  next
    case (2 vs)
    then show ?thesis
      unfolding c
      by (subst getAllPaginated_loop.simps) (simp add: assms(1) append_page_array)
  qed
next
  case (Suc d)
  show ?case
  proof (rule disjE[OF getAllPaginated_loop_cases[of rf p acc "int c * p" c]])
    assume "\<exists>out. getAllPaginated_loop rf p acc (int c * p) c = Some out"
    then show ?thesis .
  next
    assume "\<exists>acc'. getAllPaginated_loop rf p acc (int c * p) c
              = getAllPaginated_loop rf p acc' (int c * p + p) (Suc c)"
    then obtain acc' where 2: "getAllPaginated_loop rf p acc (int c * p) c
              = getAllPaginated_loop rf p acc' (int c * p + p) (Suc c)" ..
    have s: "int c * p + p = int (Suc c) * p" by (simp add: algebra_simps)
    have "\<exists>out. getAllPaginated_loop rf p acc' (int (Suc c) * p) (Suc c) = Some out"
      using Suc by (intro Suc.hyps) auto
    then show ?thesis unfolding 2 s .
  qed
qed


lemma getAllPaginated_loop_bounded:
  assumes p: "0 < p"
    and all: "\<forall>k. \<exists>r. rf k (PageRequest p (int k * p)) = Inr r \<and> bounded_page b r"
  shows "\<exists>out. getAllPaginated_loop rf p acc (int c * p) c = Some out"
proof (induction "nat (b - int (length acc))" arbitrary: acc c rule: less_induct)
  case less
  from all obtain r where r: "rf c (PageRequest p (int c * p)) = Inr r" "bounded_page b r"
    by blast
  from r(2) obtain kvs vs t where kv: "r = JObj kvs" "map_of kvs ''values'' = Some (JArr vs)"
     "map_of kvs ''total'' = Some (JNum t)" "1 \<le> t" "t \<le> b"
    by (rule bounded_pageE)
  note brk = break_bounded_paginated[OF kv(2,3,4), of p "acc @ vs"]
  show ?case
  proof (cases "t \<le> int (length (acc @ vs)) \<or> int (length vs) < p")
    case True
    then show ?thesis
      using r(1) kv(1,2) brk
      by (subst getAllPaginated_loop.simps) (simp add: append_page_envelope)
  next
    case False
    have step: "getAllPaginated_loop rf p acc (int c * p) c
                  = getAllPaginated_loop rf p (acc @ vs) (int (Suc c) * p) (Suc c)"
      using r(1) kv(1,2) brk False
      by (subst getAllPaginated_loop.simps) (simp add: append_page_envelope algebra_simps)
    have "nat (b - int (length (acc @ vs))) < nat (b - int (length acc))"
      using False p kv(5) by auto
    then have "\<exists>out. getAllPaginated_loop rf p (acc @ vs) (int (Suc c) * p) (Suc c) = Some out"
      by (rule less.hyps)
    then show ?thesis unfolding step .
  qed
qed

lemma client_getTestSteps_page:
  "client_getTestSteps http log key [(''maxResults'', JNum 100), (''startAt'', JNum (100 * int k))]
     = (case http (length log) (steps_request key k) of
          Inl error \<Rightarrow> Inl (Rejection (errorDetails error))
        | Inr response \<Rightarrow> Inr (res_data response),
        log @ [steps_request key k])"
  by (simp add: client_getTestSteps_def request_def request_config_def
                steps_request_def spread2_def fromEntries_def Let_def)

lemma getAllTestSteps_loop_cases:
  "(\<exists>out. getAllTestSteps_loop http key acc (100 * int k) log = Some out)
   \<or> (\<exists>acc'. getAllTestSteps_loop http key acc (100 * int k) log
          = getAllTestSteps_loop http key acc' (100 * int (Suc k)) (log @ [steps_request key k]))"
proof (cases "http (length log) (steps_request key k)")
  case (Inl e)
  then show ?thesis
    by (subst getAllTestSteps_loop.simps) (simp add: client_getTestSteps_page)
next
  case (Inr resp)
  show ?thesis
  proof (cases "append_page acc (res_data resp)")
    case (Inl e)
    then show ?thesis using Inr
      by (subst getAllTestSteps_loop.simps) (simp add: client_getTestSteps_page)
  next
    case app: (Inr acc')
    show ?thesis
    proof (cases "getAllTestSteps_break 100 acc' (res_data resp)")
      case True
      then show ?thesis using Inr app
        by (subst getAllTestSteps_loop.simps) (simp add: client_getTestSteps_page)
    next
      case False
      have a: "100 * int k + 100 = 100 * int (Suc k)" by simp
      have "getAllTestSteps_loop http key acc (100 * int k) log
          = getAllTestSteps_loop http key acc' (100 * int (Suc k)) (log @ [steps_request key k])"
        apply (subst getAllTestSteps_loop.simps)
        apply (simp only: client_getTestSteps_page Inr app False sum.case prod.case if_False a)
        done
      then show ?thesis by blast
    qed
  qed
qed

lemma getAllTestSteps_loop_short:
  assumes "http k (steps_request key k) = Inr resp" and "short_page 100 (res_data resp)"
  shows "c \<le> k \<Longrightarrow> length log = c \<Longrightarrow>
           \<exists>out. getAllTestSteps_loop http key acc (100 * int c) log = Some out"
proof (induction "k - c" arbitrary: c acc log)
  case 0
  then have c: "c = k" "length log = k" by simp_all
  from assms(2) show ?case
  proof (cases rule: short_pageE)
    case (1 kvs vs)
    then show ?thesis
      unfolding c(1)
      by (subst getAllTestSteps_loop.simps)
         (simp add: client_getTestSteps_page c(2) assms(1) append_page_envelope break_short_envelope)
  next
    case (2 vs)
    then show ?thesis
      unfolding c(1)
      by (subst getAllTestSteps_loop.simps)
         (simp add: client_getTestSteps_page c(2) assms(1) append_page_array)
  qed
next
  case (Suc d)
  show ?case
  proof (rule disjE[OF getAllTestSteps_loop_cases[of http key acc c log]])
    assume "\<exists>out. getAllTestSteps_loop http key acc (100 * int c) log = Some out"
    then show ?thesis .
  next
    assume "\<exists>acc'. getAllTestSteps_loop http key acc (100 * int c) log
          = getAllTestSteps_loop http key acc' (100 * int (Suc c)) (log @ [steps_request key c])"
    then obtain acc' where 2: "getAllTestSteps_loop http key acc (100 * int c) log
          = getAllTestSteps_loop http key acc' (100 * int (Suc c)) (log @ [steps_request key c])" ..
    have "\<exists>out. getAllTestSteps_loop http key acc' (100 * int (Suc c)) (log @ [steps_request key c]) = Some out"
      using Suc by (intro Suc.hyps) auto
    then show ?thesis unfolding 2 .
  qed
qed

lemma getAllTestSteps_loop_bounded:
  assumes all: "\<forall>k. \<exists>resp. http k (steps_request key k) = Inr resp \<and> bounded_page b (res_data resp)"
  shows "length log = c \<Longrightarrow>
           \<exists>out. getAllTestSteps_loop http key acc (100 * int c) log = Some out"
proof (induction "nat (b - int (length acc))" arbitrary: acc c log rule: less_induct)
  case less
  from all obtain resp where r: "http c (steps_request key c) = Inr resp"
      "bounded_page b (res_data resp)"
    by blast
  from r(2) obtain kvs vs t where kv: "res_data resp = JObj kvs"
     "map_of kvs ''values'' = Some (JArr vs)"
     "map_of kvs ''total'' = Some (JNum t)" "1 \<le> t" "t \<le> b"
    by (rule bounded_pageE)
  note brk = break_bounded_steps[OF kv(2,3,4), of 100 "acc @ vs"]
  show ?case
  proof (cases "t \<le> int (length (acc @ vs)) \<or> int (length vs) < 100")
    case True
    then show ?thesis
      using r(1) kv(1,2) brk less.prems
      by (subst getAllTestSteps_loop.simps)
         (simp add: client_getTestSteps_page append_page_envelope)
  next
    case False
    have a: "100 * int c + 100 = 100 * int (Suc c)" by simp
    have app: "append_page acc (JObj kvs) = Inr (acc @ vs)"
      using kv(2) by (rule append_page_envelope)
    have nb: "\<not> getAllTestSteps_break 100 (acc @ vs) (JObj kvs)"
      using brk False by simp
    have hr: "http (length log) (steps_request key c) = Inr resp"
      using r(1) less.prems by simp
    have step: "getAllTestSteps_loop http key acc (100 * int c) log
                  = getAllTestSteps_loop http key (acc @ vs) (100 * int (Suc c)) (log @ [steps_request key c])"
      apply (subst getAllTestSteps_loop.simps)
      apply (simp only: client_getTestSteps_page hr kv(1) app nb sum.case prod.case if_False a)
      done
    have "nat (b - int (length (acc @ vs))) < nat (b - int (length acc))"
      using False kv(5) by auto
    then have "\<exists>out. getAllTestSteps_loop http key (acc @ vs) (100 * int (Suc c)) (log @ [steps_request key c]) = Some out"
      using less.prems by (intro less.hyps) auto
    then show ?thesis unfolding step .
  qed
qed

lemma getAllTestSteps_returns:
  assumes "\<exists>out. getAllTestSteps_loop http (read_prop args ''testCaseKey'') [] 0 [] = Some out"
  shows "\<exists>out. getAllTestSteps http args = Some out"
  using assms
  by (auto simp: getAllTestSteps_def getAllTestSteps_try_def Let_def
           split: option.splits sum.splits prod.splits)


text \<open>
  When the loops do end. Both pagination loops end (the engine's promise settles, the
  handler returns) whenever some response of the run is a short page, enveloped or bare,
  and also whenever the page size is positive and every response is an envelope whose
  \<open>values\<close> is an array and whose \<open>total\<close> is a number between 1 and a fixed bound.
  The responses are those to the requests the loop really sends: the \<open>k\<close>-th asks
  for offset \<open>k * maxResults\<close>. The theorem says that the run ends, not how: on an
  enveloped short page the loop breaks, on a bare array it ends by the \<open>TypeError\<close>
  of \<open>bare_array_run\<close> below.
\<close>

theorem pagination_terminates:
  "(((\<exists>k r. requestFn k (PageRequest p (int k * p)) = Inr r \<and> short_page p r)
      \<or> (0 < p \<and> (\<forall>k. \<exists>r. requestFn k (PageRequest p (int k * p)) = Inr r \<and> bounded_page bound r)))
     \<longrightarrow> (\<exists>out. getAllPaginated requestFn (Some p) = Some out))
   \<and> (((\<exists>k resp. http k (steps_request (read_prop args ''testCaseKey'') k) = Inr resp
                    \<and> short_page 100 (res_data resp))
      \<or> (\<forall>k. \<exists>resp. http k (steps_request (read_prop args ''testCaseKey'') k) = Inr resp
                    \<and> bounded_page bound (res_data resp)))
     \<longrightarrow> (\<exists>out. getAllTestSteps http args = Some out))"
proof (intro conjI impI)
  assume h: "(\<exists>k r. requestFn k (PageRequest p (int k * p)) = Inr r \<and> short_page p r)
      \<or> (0 < p \<and> (\<forall>k. \<exists>r. requestFn k (PageRequest p (int k * p)) = Inr r \<and> bounded_page bound r))"
  have "\<exists>out. getAllPaginated_loop requestFn p [] (int 0 * p) 0 = Some out"
    using h
  proof
    assume "\<exists>k r. requestFn k (PageRequest p (int k * p)) = Inr r \<and> short_page p r"
    then obtain k r where "requestFn k (PageRequest p (int k * p)) = Inr r" "short_page p r"
      by blast
    then show ?thesis by (rule getAllPaginated_loop_short) simp
  next
    assume "0 < p \<and> (\<forall>k. \<exists>r. requestFn k (PageRequest p (int k * p)) = Inr r \<and> bounded_page bound r)"
    then show ?thesis using getAllPaginated_loop_bounded by blast
  qed
  then show "\<exists>out. getAllPaginated requestFn (Some p) = Some out"
    by (simp add: getAllPaginated_def)
next
  let ?key = "read_prop args ''testCaseKey''"
  assume h: "(\<exists>k resp. http k (steps_request ?key k) = Inr resp \<and> short_page 100 (res_data resp))
      \<or> (\<forall>k. \<exists>resp. http k (steps_request ?key k) = Inr resp \<and> bounded_page bound (res_data resp))"
  have "\<exists>out. getAllTestSteps_loop http ?key [] (100 * int 0) [] = Some out"
    using h
  proof
    assume "\<exists>k resp. http k (steps_request ?key k) = Inr resp \<and> short_page 100 (res_data resp)"
    then obtain k resp where "http k (steps_request ?key k) = Inr resp"
        "short_page 100 (res_data resp)"
      by blast
    then show ?thesis by (rule getAllTestSteps_loop_short) simp_all
  next
    assume "\<forall>k. \<exists>resp. http k (steps_request ?key k) = Inr resp \<and> bounded_page bound (res_data resp)"
    then show ?thesis by (rule getAllTestSteps_loop_bounded) simp
  qed
  then show "\<exists>out. getAllTestSteps http args = Some out"
    by (intro getAllTestSteps_returns) simp
qed

text \<open>
  Runs that satisfy the hypotheses: a bare short array, an envelope with a total of 1,
  and an enveloped short page behind the handler.
\<close>

theorem pagination_terminates_witness:
  "(\<exists>out. getAllPaginated (\<lambda>k r. Inr (JArr [JNum 7])) (Some 50) = Some out)
   \<and> (\<exists>out. getAllPaginated (\<lambda>k r. Inr (JObj [(''values'', JArr [JNum 7]), (''total'', JNum 1)])) (Some 1)
             = Some out)
   \<and> (\<exists>out. getAllTestSteps
               (\<lambda>k rq. Inr \<lparr>res_status = 200, res_statusText = ''OK'',
                             res_data = JObj [(''values'', JArr [JNum 7])]\<rparr>)
               (JObj [(''testCaseKey'', JStr ''PROJ-T1'')]) = Some out)"
proof -
  have a: "\<exists>k r. (\<lambda>k r. Inr (JArr [JNum 7])) k (PageRequest 50 (int k * 50)) = Inr r \<and> short_page 50 r"
    by (simp add: short_page_def)
  have b: "(0::int) < 1 \<and> (\<forall>k. \<exists>r. (\<lambda>k r. Inr (JObj [(''values'', JArr [JNum 7]), (''total'', JNum 1)]))
                 k (PageRequest 1 (int k * 1)) = Inr r \<and> bounded_page 1 r)"
    by (simp add: bounded_page_def)
  have c: "\<exists>k resp. (\<lambda>k rq. Inr \<lparr>res_status = 200, res_statusText = ''OK'',
                             res_data = JObj [(''values'', JArr [JNum 7])]\<rparr>)
              k (steps_request (read_prop (JObj [(''testCaseKey'', JStr ''PROJ-T1'')]) ''testCaseKey'') k) = Inr resp
            \<and> short_page 100 (res_data resp)"
    by (simp add: short_page_def)
  show ?thesis
    using pagination_terminates[of "\<lambda>k r. Inr (JArr [JNum 7])" 50 0
            "\<lambda>k rq. Inr \<lparr>res_status = 200, res_statusText = ''OK'',
                             res_data = JObj [(''values'', JArr [JNum 7])]\<rparr>"
            "JObj [(''testCaseKey'', JStr ''PROJ-T1'')]"]
          pagination_terminates[of "\<lambda>k r. Inr (JObj [(''values'', JArr [JNum 7]), (''total'', JNum 1)])" 1 1
            "\<lambda>k rq. Inr \<lparr>res_status = 200, res_statusText = ''OK'',
                             res_data = JObj [(''values'', JArr [JNum 7])]\<rparr>"
            "JObj [(''testCaseKey'', JStr ''PROJ-T1'')]"]
          a b c
    by blast
qed

text \<open>What a run against a bare array ends with.\<close>

lemma bare_array_run:
  "getAllPaginated (\<lambda>k r. Inr (JArr [JNum 7])) (Some 50) = Some (Inl TypeError, 1)"
  by (simp add: getAllPaginated_def getAllPaginated_loop.simps append_page_array)

lemma getAllPaginated_zero_total_diverges:
  "getAllPaginated (\<lambda>k r. Inr (JObj [(''values'', JArr [JNum 7]), (''total'', JNum 0)])) (Some 1) = None"
proof -
  let ?rf = "\<lambda>(k::nat) (r::page_request). (Inr (JObj [(''values'', JArr [JNum 7]), (''total'', JNum 0)]) :: exn + jsval)"
  have "rf = ?rf \<and> p = 1 \<longrightarrow> False"
    if "getAllPaginated_loop rf p acc s c = Some out" for rf p acc s c out
    using that
    by (rule getAllPaginated_loop.raw_induct
               [where P = "\<lambda>rf p acc s c out. rf = ?rf \<and> p = 1 \<longrightarrow> False", rotated])
       (auto simp: append_page_def get_prop_def getAllPaginated_break_def getAllPaginated_total_def
                   js_or_def js_ge_def js_lt_def opt_prop_def split: sum.splits if_splits)
  then show ?thesis
    unfolding getAllPaginated_def
    by (cases "getAllPaginated_loop ?rf (case Some 1 of None \<Rightarrow> defaultMaxResults | Some m \<Rightarrow> m) [] 0 0")
       (simp, fastforce)
qed

text \<open>
  Claim C2 fails on the code for a total count of 0. Against a service whose every
  response is a full page \<open>{values: [7], total: 0}\<close> (the total counts are bounded:
  they are all 0), \<open>getAllPaginated\<close> with a page size of 1 never returns:
  \<open>response.total || response.size\<close> is \<open>undefined\<close> when the total is 0, so the
  test \<open>length >= total\<close> is false, and the page is not short. The loop of the
  \<open>get_all_test_steps\<close> handler, whose total ends with \<open>|| 0\<close>, stops after the
  first full page of such a service.
\<close>

theorem pagination_zero_total_diverges:
  "getAllPaginated (\<lambda>k r. Inr (JObj [(''values'', JArr [JNum 7]), (''total'', JNum 0)])) (Some 1) = None
   \<and> getAllTestSteps
         (always_reply (JObj [(''values'', JArr (replicate 100 (JNum 7))), (''total'', JNum 0)]))
         (JObj [(''testCaseKey'', JStr ''PROJ-T1'')])
       = Some
           (Inr \<lparr>content =
                   [JsonText (JObj
                      [(''testCaseKey'', JStr ''PROJ-T1''),
                       (''testSteps'', JArr (replicate 100 (JNum 7))),
                       (''totalSteps'', JNum 100),
                       (''note'', JStr ''All test steps retrieved (pagination handled automatically)'')])],
                 isError = False\<rparr>,
            [steps_request (JStr ''PROJ-T1'') 0])"
proof (intro conjI)
  show "getAllPaginated (\<lambda>k r. Inr (JObj [(''values'', JArr [JNum 7]), (''total'', JNum 0)])) (Some 1) = None"
    by (rule getAllPaginated_zero_total_diverges)
  let ?http = "always_reply (JObj [(''values'', JArr (replicate 100 (JNum 7))), (''total'', JNum 0)])"
  have pg: "client_getTestSteps ?http [] (JStr ''PROJ-T1'')
              [(''maxResults'', JNum 100), (''startAt'', JNum 0)]
            = (Inr (JObj [(''values'', JArr (replicate 100 (JNum 7))), (''total'', JNum 0)]),
               [steps_request (JStr ''PROJ-T1'') 0])"
    using client_getTestSteps_page[of ?http "[]" "JStr ''PROJ-T1''" 0]
    by (simp add: always_reply_def)
  have loop: "getAllTestSteps_loop ?http (JStr ''PROJ-T1'') [] 0 []
        = Some (Inr (replicate 100 (JNum 7)), [steps_request (JStr ''PROJ-T1'') 0])"
    by (subst getAllTestSteps_loop.simps)
       (simp add: pg append_page_envelope
                  getAllTestSteps_break_def getAllTestSteps_total_def js_or_def js_ge_def)
  show "getAllTestSteps
         (always_reply (JObj [(''values'', JArr (replicate 100 (JNum 7))), (''total'', JNum 0)]))
         (JObj [(''testCaseKey'', JStr ''PROJ-T1'')])
       = Some
           (Inr \<lparr>content =
                   [JsonText (JObj
                      [(''testCaseKey'', JStr ''PROJ-T1''),
                       (''testSteps'', JArr (replicate 100 (JNum 7))),
                       (''totalSteps'', JNum 100),
                       (''note'', JStr ''All test steps retrieved (pagination handled automatically)'')])],
                 isError = False\<rparr>,
            [steps_request (JStr ''PROJ-T1'') 0])"
    using loop key_PROJ_T1 by (simp add: getAllTestSteps_def getAllTestSteps_try_def Let_def)
qed

subsection \<open>Normalisation of a page response\<close>

lemma getAllPaginated_empty_object_diverges:
  "getAllPaginated (\<lambda>k r. Inr (JObj [])) maxResults = None"
proof -
  have "rf = (\<lambda>k r. Inr (JObj [])) \<longrightarrow> False"
    if "getAllPaginated_loop rf p acc s c = Some out" for rf p acc s c out
    using that
    by (rule getAllPaginated_loop.raw_induct[where P = "\<lambda>rf p acc s c out. rf = (\<lambda>k r. Inr (JObj [])) \<longrightarrow> False", rotated])
       (auto simp: append_page_def get_prop_def getAllPaginated_break_def getAllPaginated_total_def
                   js_or_def js_ge_def js_lt_def opt_prop_def split: sum.splits if_splits)
  then show ?thesis
    unfolding getAllPaginated_def
    by (cases "getAllPaginated_loop (\<lambda>k r. Inr (JObj []))
                 (case maxResults of None \<Rightarrow> defaultMaxResults | Some m \<Rightarrow> m) [] 0 0") blast+
qed

text \<open>
  Claim C3 fails on the code in two places. A bare array is never appended: an array
  inherits \<open>values\<close> from \<open>Array.prototype\<close>, so \<open>response.values\<close> is a function
  object, the first branch is taken and spreading the function raises \<open>TypeError\<close>;
  the engine's promise is rejected and the handler returns an error envelope. And
  \<open>getAllPaginated\<close> has no final \<open>|| 0\<close>: with neither \<open>total\<close> nor \<open>size\<close> its
  total is \<open>undefined\<close>, the test \<open>length >= undefined\<close> is false, and against a
  service that answers \<open>{}\<close> it never returns, where the handler's loop, which has the
  \<open>|| 0\<close>, stops at once.
\<close>

theorem normalization_divergence:
  "append_page allResults (JArr items) = Inl TypeError
   \<and> getAllPaginated_total (JObj []) = JUndefined
   \<and> getAllTestSteps_total (JObj []) = JNum 0
   \<and> \<not> getAllPaginated_break maxResults [] (JObj [])
   \<and> getAllTestSteps_break 100 [] (JObj [])
   \<and> getAllPaginated (\<lambda>k r. Inr (JObj [])) (Some maxResults) = None
   \<and> getAllPaginated (\<lambda>k r. Inr (JArr [JNum 7])) (Some 50) = Some (Inl TypeError, 1)
   \<and> (\<exists>log. getAllTestSteps
          (\<lambda>k rq. Inr \<lparr>res_status = 200, res_statusText = ''OK'', res_data = JArr [JNum 7]\<rparr>)
          (JObj [(''testCaseKey'', JStr ''PROJ-T1'')])
        = Some (Inr \<lparr>content = [ErrorText TypeError ''fetching all test steps for PROJ-T1''],
                     isError = True\<rparr>, log))"
proof (intro conjI)
  show "append_page allResults (JArr items) = Inl TypeError"
    by (rule append_page_array)
  show "getAllPaginated_total (JObj []) = JUndefined"
    by (simp add: getAllPaginated_total_def js_or_def)
  show "getAllTestSteps_total (JObj []) = JNum 0"
    by (simp add: getAllTestSteps_total_def js_or_def)
  show "\<not> getAllPaginated_break maxResults [] (JObj [])"
    by (simp add: getAllPaginated_break_def getAllPaginated_total_def js_or_def js_ge_def js_lt_def opt_prop_def)
  show "getAllTestSteps_break 100 [] (JObj [])"
    by (simp add: getAllTestSteps_break_def getAllTestSteps_total_def js_or_def js_ge_def)
  show "getAllPaginated (\<lambda>k r. Inr (JObj [])) (Some maxResults) = None"
    by (rule getAllPaginated_empty_object_diverges)
  show "getAllPaginated (\<lambda>k r. Inr (JArr [JNum 7])) (Some 50) = Some (Inl TypeError, 1)"
    by (rule bare_array_run)
  show "\<exists>log. getAllTestSteps
          (\<lambda>k rq. Inr \<lparr>res_status = 200, res_statusText = ''OK'', res_data = JArr [JNum 7]\<rparr>)
          (JObj [(''testCaseKey'', JStr ''PROJ-T1'')])
        = Some (Inr \<lparr>content = [ErrorText TypeError ''fetching all test steps for PROJ-T1''],
                     isError = True\<rparr>, log)"
    using key_PROJ_T1
    by (simp add: getAllTestSteps_def getAllTestSteps_try_def getAllTestSteps_loop.simps
                  client_getTestSteps_def request_def Let_def append_page_array
                  catch_block_def get_prop_def formatError_def)
qed

text \<open>What the accumulation step does do.\<close>

lemma append_page_cases:
  "append_page allResults response =
     (if nullish response then Inl TypeError
      else if truthy (read_prop response ''values'') then
        (case spread (read_prop response ''values'') of
           Inl e \<Rightarrow> Inl e | Inr items \<Rightarrow> Inr (allResults @ items))
      else Inr allResults)"
  by (cases response) (auto simp: append_page_def get_prop_def)

subsection \<open>Query parameters\<close>

lemma obj_set_fresh: "k \<notin> fst ` set obj \<Longrightarrow> obj_set obj k v = obj @ [(k, v)]"
  by (induction obj) auto

lemma obj_set_same: "distinct (map fst obj) \<Longrightarrow> (k, v) \<in> set obj \<Longrightarrow> obj_set obj k v = obj"
  by (induction obj) (auto simp: rev_image_eqI)

lemma assign_all_fresh:
  "distinct (map fst (obj @ es)) \<Longrightarrow> foldl (\<lambda>obj (k, v). obj_set obj k v) obj es = obj @ es"
proof (induction es arbitrary: obj)
  case Nil
  then show ?case by simp
next
  case (Cons e es)
  obtain k v where e: "e = (k, v)" by (cases e)
  have "obj_set obj k v = obj @ [(k, v)]"
    using Cons.prems e by (intro obj_set_fresh) auto
  moreover have "distinct (map fst ((obj @ [(k, v)]) @ es))"
    using Cons.prems e by simp
  ultimately show ?case using Cons.IH[of "obj @ [(k, v)]"] e by simp
qed

lemma assign_all_same:
  "distinct (map fst obj) \<Longrightarrow> set es \<subseteq> set obj \<Longrightarrow> foldl (\<lambda>obj (k, v). obj_set obj k v) obj es = obj"
  by (induction es) (auto simp: obj_set_same)

text \<open>
  The object literal of \<open>request\<close> spreads \<open>params\<close> itself before the filtered
  entries, so the parameters handed to the HTTP library are \<open>params\<close>, unchanged.
\<close>

lemma request_params_unchanged:
  assumes "distinct (map fst params)"
  shows "req_params (request_config method url data params) = params"
proof -
  let ?kept = "filter (\<lambda>(_, value). \<not> nullish value) params"
  have d: "distinct (map fst ?kept)" using assms by (simp add: distinct_map_filter)
  have 1: "fromEntries params = params" and 2: "fromEntries ?kept = ?kept"
    using assms d assign_all_fresh[of "[]"] unfolding fromEntries_def by simp_all
  have "spread2 params (fromEntries ?kept) = params"
    unfolding spread2_def 1 2 using assms by (intro assign_all_same) auto
  then show ?thesis by (simp add: request_config_def)
qed

text \<open>
  Claim C4 fails on the code: a \<open>list_test_cases\<close> call without \<open>projectKey\<close> and
  \<open>folderId\<close> hands \<open>request\<close> these parameters, and the configuration passed to
  the HTTP library still holds the \<open>undefined\<close> and the \<open>null\<close> entry.
\<close>

theorem request_keeps_null_params:
  "req_params
     (request_config ''GET'' ''/testcases'' JNull
        [(''projectKey'', JUndefined), (''folderId'', JNull),
         (''maxResults'', JNum 50), (''startAt'', JNum 0)])
   = [(''projectKey'', JUndefined), (''folderId'', JNull),
      (''maxResults'', JNum 50), (''startAt'', JNum 0)]
   \<and> map req_params
         (snd (request http [] ''GET'' ''/testcases'' JNull
                 [(''projectKey'', JUndefined), (''folderId'', JNull),
                  (''maxResults'', JNum 50), (''startAt'', JNum 0)]))
     = [[(''projectKey'', JUndefined), (''folderId'', JNull),
         (''maxResults'', JNum 50), (''startAt'', JNum 0)]]"
  by (simp add: request_def request_config_def spread2_def fromEntries_def Let_def)

subsection \<open>The error object of a failed call\<close>

text \<open>
  Claim C7, as the code has it. The error object always has the seven keys, in this
  order, and \<open>responseData\<close> after them exactly when a response with a truthy body
  arrived. \<open>message\<close> is always populated. \<open>status\<close> and \<open>statusText\<close> are
  populated exactly when an HTTP response arrived. \<open>url\<close>, \<open>method\<close>,
  \<open>requestData\<close> and \<open>params\<close> are those of the request configuration the error
  carries, and \<open>undefined\<close> when it carries none.
\<close>

theorem errorDetails_fields:
  "keys (errorDetails error) =
      [''status'', ''statusText'', ''url'', ''method'', ''message'', ''requestData'', ''params'']
      @ (case err_response error of
           None \<Rightarrow> []
         | Some r \<Rightarrow> if truthy (res_data r) then [''responseData''] else [])
   \<and> read_prop (errorDetails error) ''message'' = JStr (err_message error)
   \<and> (case err_response error of
         None \<Rightarrow>
           read_prop (errorDetails error) ''status'' = JUndefined
           \<and> read_prop (errorDetails error) ''statusText'' = JUndefined
           \<and> read_prop (errorDetails error) ''responseData'' = JUndefined
       | Some r \<Rightarrow>
           read_prop (errorDetails error) ''status'' = JNum (res_status r)
           \<and> read_prop (errorDetails error) ''statusText'' = JStr (res_statusText r)
           \<and> read_prop (errorDetails error) ''responseData''
               = (if truthy (res_data r) then res_data r else JUndefined))
   \<and> (case err_config error of
         None \<Rightarrow>
           read_prop (errorDetails error) ''url'' = JUndefined
           \<and> read_prop (errorDetails error) ''method'' = JUndefined
           \<and> read_prop (errorDetails error) ''requestData'' = JUndefined
           \<and> read_prop (errorDetails error) ''params'' = JUndefined
       | Some c \<Rightarrow>
           read_prop (errorDetails error) ''url'' = cfg_url c
           \<and> read_prop (errorDetails error) ''method''
               = (case cfg_method c of None \<Rightarrow> JUndefined | Some m \<Rightarrow> JStr (toUpperCase m))
           \<and> read_prop (errorDetails error) ''requestData'' = cfg_data c
           \<and> read_prop (errorDetails error) ''params'' = cfg_params c)"
  by (simp add: errorDetails_def split: option.splits)

text \<open>A 404 answer with a body: every field is populated.\<close>

theorem errorDetails_fields_witness:
  "keys (errorDetails
           \<lparr>err_response = Some \<lparr>res_status = 404, res_statusText = ''Not Found'',
                                   res_data = JObj [(''errorCode'', JNum 404)]\<rparr>,
            err_config = Some \<lparr>cfg_url = JStr ''/testcases/PROJ-T1'', cfg_method = Some ''get'',
                               cfg_data = JNull, cfg_params = JObj []\<rparr>,
            err_message = ''Request failed with status code 404''\<rparr>)
     = [''status'', ''statusText'', ''url'', ''method'', ''message'', ''requestData'', ''params'',
        ''responseData'']
   \<and> read_prop (errorDetails
           \<lparr>err_response = Some \<lparr>res_status = 404, res_statusText = ''Not Found'',
                                   res_data = JObj [(''errorCode'', JNum 404)]\<rparr>,
            err_config = Some \<lparr>cfg_url = JStr ''/testcases/PROJ-T1'', cfg_method = Some ''get'',
                               cfg_data = JNull, cfg_params = JObj []\<rparr>,
            err_message = ''Request failed with status code 404''\<rparr>) ''status'' = JNum 404
   \<and> read_prop (errorDetails
           \<lparr>err_response = Some \<lparr>res_status = 404, res_statusText = ''Not Found'',
                                   res_data = JObj [(''errorCode'', JNum 404)]\<rparr>,
            err_config = Some \<lparr>cfg_url = JStr ''/testcases/PROJ-T1'', cfg_method = Some ''get'',
                               cfg_data = JNull, cfg_params = JObj []\<rparr>,
            err_message = ''Request failed with status code 404''\<rparr>) ''method'' = JStr ''GET''"
  using errorDetails_fields
          [of "\<lparr>err_response = Some \<lparr>res_status = 404, res_statusText = ''Not Found'',
                                   res_data = JObj [(''errorCode'', JNum 404)]\<rparr>,
            err_config = Some \<lparr>cfg_url = JStr ''/testcases/PROJ-T1'', cfg_method = Some ''get'',
                               cfg_data = JNull, cfg_params = JObj []\<rparr>,
            err_message = ''Request failed with status code 404''\<rparr>"]
  by (simp add: toUpperCase_def)

text \<open>
  Claim C7 as stated fails for a pure network failure (a timeout, no HTTP response):
  \<open>status\<close> and \<open>statusText\<close> are \<open>undefined\<close>.
\<close>

theorem errorDetails_network_failure_counterexample:
  "read_prop
     (errorDetails
        \<lparr>err_response = None,
         err_config = Some \<lparr>cfg_url = JStr ''/projects'', cfg_method = Some ''get'',
                            cfg_data = JUndefined, cfg_params = JObj []\<rparr>,
         err_message = ''timeout of 30000ms exceeded''\<rparr>) ''status'' = JUndefined
   \<and> read_prop
     (errorDetails
        \<lparr>err_response = None,
         err_config = Some \<lparr>cfg_url = JStr ''/projects'', cfg_method = Some ''get'',
                            cfg_data = JUndefined, cfg_params = JObj []\<rparr>,
         err_message = ''timeout of 30000ms exceeded''\<rparr>) ''statusText'' = JUndefined"
  by (simp add: errorDetails_def)

subsection \<open>Handlers called without arguments\<close>

text \<open>
  Claim C8 fails on the code. Called with \<open>undefined\<close> (a tool call that carries no
  \<open>arguments\<close>), the destructuring in the \<open>try\<close> block raises \<open>TypeError\<close>, and the
  \<open>catch\<close> block raises again when it reads \<open>args.testCaseKey\<close> for its message:
  the handler's promise is rejected, no envelope is returned. The same holds for
  \<open>null\<close>. A handler whose \<open>catch\<close> block does not read \<open>args\<close>, such as
  \<open>list_test_cases\<close>, returns the error envelope.
\<close>

theorem handler_undefined_args_escape:
  "getTestSteps http JUndefined = (Inl TypeError, [])
   \<and> getTestCase http JUndefined = (Inl TypeError, [])
   \<and> appendTestSteps http JUndefined = (Inl TypeError, [])
   \<and> updateTestCase http JUndefined = (Inl TypeError, [])
   \<and> getAllTestSteps http JUndefined = Some (Inl TypeError, [])
   \<and> getTestSteps http JNull = (Inl TypeError, [])
   \<and> listTestCases http JUndefined
       = (Inr \<lparr>content = [ErrorText TypeError ''fetching test cases''], isError = True\<rparr>, [])"
  by (simp add: getTestSteps_def getTestSteps_try_def getTestCase_def getTestCase_try_def
                appendTestSteps_def appendTestSteps_try_def updateTestCase_def updateTestCase_try_def
                getAllTestSteps_def getAllTestSteps_try_def catch_block_def get_prop_def
                listTestCases_def listTestCases_try_def catch_fixed_def formatError_def)

subsection \<open>Keys the unanchored pattern lets through\<close>

text \<open>
  Claim C10. Three keys that are not of the advertised form \<open>[A-Z]+-T[0-9]+\<close> (a
  lowercase project part, a blank inside, characters after the digits) pass
  \<open>testCaseKeyPattern.test\<close>, and \<open>get_test_steps\<close> sends its request with such a key
  in the path.
\<close>

theorem unanchored_key_pattern:
  "testCaseKeyPattern_test (JStr ''proj-T1'') \<and> \<not> regex_full advertisedKeyPattern ''proj-T1''
   \<and> testCaseKeyPattern_test (JStr ''MY PROJ-T1'') \<and> \<not> regex_full advertisedKeyPattern ''MY PROJ-T1''
   \<and> testCaseKeyPattern_test (JStr ''PROJ-T1/extra'')
   \<and> \<not> regex_full advertisedKeyPattern ''PROJ-T1/extra''
   \<and> regex_full advertisedKeyPattern ''PROJ-T1''
   \<and> snd (getTestSteps http (JObj [(''testCaseKey'', JStr ''PROJ-T1/extra'')]))
       = [\<lparr>req_method = ''GET'', req_url = ''/testcases/PROJ-T1/extra/teststeps'',
           req_data = JNull,
           req_params = [(''maxResults'', JNum 50), (''startAt'', JNum 0)]\<rparr>]
   \<and> snd (getTestSteps http (JObj [(''testCaseKey'', JStr ''proj-T1'')]))
       = [\<lparr>req_method = ''GET'', req_url = ''/testcases/proj-T1/teststeps'',
           req_data = JNull,
           req_params = [(''maxResults'', JNum 50), (''startAt'', JNum 0)]\<rparr>]"
  by (simp add: testCaseKeyPattern_test_def testCaseKeyPattern_def advertisedKeyPattern_def
                Plus_def is_digit_def getTestSteps_def getTestSteps_try_def Let_def
                client_getTestSteps_def request_def request_config_def spread2_def fromEntries_def
                js_or_def defaultMaxResults_def split: prod.splits sum.splits)

subsection \<open>Validation comes before any remote call\<close>

lemma request_not_Error: "request http log method url data params = (Inl e, log') \<Longrightarrow> e \<noteq> Error m"
  by (auto simp: request_def Let_def split: sum.splits)

lemma append_page_error: "append_page acc r = Inl e \<Longrightarrow> e = TypeError"
  by (cases r; cases "read_prop r ''values''")
     (auto simp: append_page_def get_prop_def split: if_splits sum.splits)

lemma catch_block_validation:
  "is_validation_error (catch_block args doing e) \<Longrightarrow> \<exists>m. e = Error m"
  by (cases e)
     (auto simp: is_validation_error_def catch_block_def get_prop_def formatError_def
           split: if_splits sum.splits)

lemma getTestSteps_try_validation:
  "getTestSteps_try http args = (Inl (Error m), log) \<Longrightarrow> log = []"
  by (auto simp: getTestSteps_try_def Let_def client_getTestSteps_def
           split: if_splits prod.splits sum.splits dest: request_not_Error)

lemma getTestSteps_try_success:
  "getTestSteps_try http args = (Inr result, log) \<Longrightarrow> \<not> is_validation_error (Inr result)"
  by (auto simp: getTestSteps_try_def Let_def is_validation_error_def
           split: if_splits prod.splits sum.splits)

lemma getTestSteps_validation:
  "is_validation_error (fst (getTestSteps http args)) \<Longrightarrow> snd (getTestSteps http args) = []"
  unfolding getTestSteps_def
  by (cases "getTestSteps_try http args"; cases "fst (getTestSteps_try http args)")
     (auto dest: catch_block_validation getTestSteps_try_validation getTestSteps_try_success)

lemma getTestCase_try_validation:
  "getTestCase_try http args = (Inl (Error m), log) \<Longrightarrow> log = []"
  by (auto simp: getTestCase_try_def Let_def client_getTestCase_def
           split: if_splits prod.splits sum.splits dest: request_not_Error)

lemma getTestCase_try_success:
  "getTestCase_try http args = (Inr result, log) \<Longrightarrow> \<not> is_validation_error (Inr result)"
  by (auto simp: getTestCase_try_def Let_def is_validation_error_def
           split: if_splits prod.splits sum.splits)

lemma getTestCase_validation:
  "is_validation_error (fst (getTestCase http args)) \<Longrightarrow> snd (getTestCase http args) = []"
  unfolding getTestCase_def
  by (cases "getTestCase_try http args"; cases "fst (getTestCase_try http args)")
     (auto dest: catch_block_validation getTestCase_try_validation getTestCase_try_success)

lemma testCaseData_error: "testCaseData args current = Inl e \<Longrightarrow> e = TypeError"
  by (auto simp: testCaseData_def Let_def split: if_splits)

lemma updateTestCase_try_validation:
  "updateTestCase_try http args = (Inl (Error m), log) \<Longrightarrow> log = []"
  by (auto simp: updateTestCase_try_def Let_def client_getTestCase_def client_updateTestCase_def
           split: if_splits prod.splits sum.splits dest: request_not_Error testCaseData_error)

lemma updateTestCase_try_success:
  "updateTestCase_try http args = (Inr result, log) \<Longrightarrow> \<not> is_validation_error (Inr result)"
  by (auto simp: updateTestCase_try_def Let_def is_validation_error_def
           split: if_splits prod.splits sum.splits)

lemma updateTestCase_validation:
  "is_validation_error (fst (updateTestCase http args)) \<Longrightarrow> snd (updateTestCase http args) = []"
  unfolding updateTestCase_def
  by (cases "updateTestCase_try http args"; cases "fst (updateTestCase_try http args)")
     (auto dest: catch_block_validation updateTestCase_try_validation updateTestCase_try_success)

lemma appendTestSteps_try_validation:
  "appendTestSteps_try http args = (Inl (Error m), log) \<Longrightarrow> log = []"
  by (auto simp: appendTestSteps_try_def Let_def client_appendTestSteps_def
           split: if_splits prod.splits sum.splits dest: request_not_Error)

lemma appendTestSteps_try_success:
  "appendTestSteps_try http args = (Inr result, log) \<Longrightarrow> \<not> is_validation_error (Inr result)"
  by (auto simp: appendTestSteps_try_def Let_def is_validation_error_def
           split: if_splits prod.splits sum.splits)

lemma appendTestSteps_validation:
  "is_validation_error (fst (appendTestSteps http args)) \<Longrightarrow> snd (appendTestSteps http args) = []"
  unfolding appendTestSteps_def
  by (cases "appendTestSteps_try http args"; cases "fst (appendTestSteps_try http args)")
     (auto dest: catch_block_validation appendTestSteps_try_validation appendTestSteps_try_success)


lemma getAllTestSteps_loop_not_Error:
  assumes "getAllTestSteps_loop http key acc s log = Some out"
  shows "\<forall>m. fst out \<noteq> Inl (Error m)"
  using assms
  by (rule getAllTestSteps_loop.raw_induct
             [where P = "\<lambda>http key acc s log out. \<forall>m. fst out \<noteq> Inl (Error m)", rotated])
     (auto simp: client_getTestSteps_def split: prod.splits sum.splits if_splits
           dest: request_not_Error append_page_error)

lemma getAllTestSteps_try_validation:
  "getAllTestSteps_try http args = Some (Inl (Error m), log) \<Longrightarrow> log = []"
  by (auto simp: getAllTestSteps_try_def Let_def
           split: if_splits option.splits prod.splits sum.splits
           dest: getAllTestSteps_loop_not_Error)

lemma getAllTestSteps_try_success:
  "getAllTestSteps_try http args = Some (Inr result, log) \<Longrightarrow> \<not> is_validation_error (Inr result)"
  by (auto simp: getAllTestSteps_try_def Let_def is_validation_error_def
           split: if_splits option.splits prod.splits sum.splits)

lemma getAllTestSteps_validation:
  "getAllTestSteps http args = Some out \<Longrightarrow> is_validation_error (fst out) \<Longrightarrow> snd out = []"
proof -
  assume out: "getAllTestSteps http args = Some out" and v: "is_validation_error (fst out)"
  from out obtain r log where t: "getAllTestSteps_try http args = Some (r, log)"
    by (auto simp: getAllTestSteps_def split: option.splits)
  show "snd out = []"
  proof (cases r)
    case (Inl e)
    with out t have o: "out = (catch_block args ''fetching all test steps for '' e, log)"
      by (simp add: getAllTestSteps_def)
    with v obtain m where "e = Error m" by (auto dest: catch_block_validation)
    with t Inl have "log = []" by (auto dest: getAllTestSteps_try_validation)
    with o show ?thesis by simp
  next
    case (Inr result)
    with out t have "out = (Inr result, log)" by (simp add: getAllTestSteps_def)
    with v t Inr show ?thesis by (auto dest: getAllTestSteps_try_success)
  qed
qed

subsection \<open>The request of \<open>append_test_steps\<close>\<close>

lemma format_steps_well_formed:
  "\<forall>step \<in> set steps. well_formed_step step \<Longrightarrow>
     \<exists>items. format_steps index steps = Inr items \<and> length items = length steps
       \<and> (\<forall>i < length steps. \<exists>optional.
             items ! i = JObj [(''inline'',
                JObj ((''description'', read_prop (steps ! i) ''description'') # optional))])"
proof (induction steps arbitrary: index)
  case Nil
  then show ?case by simp
next
  case (Cons step steps)
  from Cons.prems have wf: "well_formed_step step" and rest: "\<forall>s \<in> set steps. well_formed_step s"
    by simp_all
  from wf obtain optional where
    f: "format_step index step
          = Inr (JObj [(''inline'', JObj ((''description'', read_prop step ''description'') # optional))])"
    by (auto simp: format_step_def well_formed_step_def)
  from Cons.IH[OF rest, of "Suc index"] obtain items where
    items: "format_steps (Suc index) steps = Inr items" "length items = length steps"
      "\<forall>i < length steps. \<exists>optional.
             items ! i = JObj [(''inline'',
                JObj ((''description'', read_prop (steps ! i) ''description'') # optional))]"
    by blast
  show ?case
    using f items by (auto simp: nth_Cons split: nat.splits)
qed

lemma appendTestSteps_valid:
  assumes "\<not> nullish args"
    and "truthy (read_prop args ''testCaseKey'')"
    and "testCaseKeyPattern_test (read_prop args ''testCaseKey'')"
    and "read_prop args ''steps'' = JArr steps"
    and "1 \<le> length steps" and "length steps \<le> 100"
    and "\<forall>step \<in> set steps. well_formed_step step"
  shows "\<exists>items. format_steps 0 steps = Inr items
           \<and> snd (appendTestSteps http args)
               = [\<lparr>req_method = ''POST'',
                   req_url = ''/testcases/'' @ to_string (read_prop args ''testCaseKey'') @ ''/teststeps'',
                   req_data = JObj [(''mode'', JStr ''OVERWRITE''), (''items'', JArr items)],
                   req_params = []\<rparr>]"
proof -
  from format_steps_well_formed[OF assms(7), of 0] obtain items where
    items: "format_steps 0 steps = Inr items" by blast
  have "snd (appendTestSteps http args)
               = [\<lparr>req_method = ''POST'',
                   req_url = ''/testcases/'' @ to_string (read_prop args ''testCaseKey'') @ ''/teststeps'',
                   req_data = JObj [(''mode'', JStr ''OVERWRITE''), (''items'', JArr items)],
                   req_params = []\<rparr>]"
    using assms(1-6) items
    by (auto simp: appendTestSteps_def appendTestSteps_try_def Let_def client_appendTestSteps_def
                   request_def request_config_def spread2_def fromEntries_def
             split: prod.splits sum.splits)
  then show ?thesis using items by blast
qed


lemma appendTestSteps_no_steps:
  assumes "\<not> nullish args"
    and "truthy (read_prop args ''testCaseKey'')"
    and "testCaseKeyPattern_test (read_prop args ''testCaseKey'')"
    and "read_prop args ''steps'' = JArr []"
  shows "appendTestSteps http args
           = (Inr \<lparr>content = [ErrorText (Error ''At least one step must be provided'')
                                (''appending test steps to '' @ to_string (read_prop args ''testCaseKey''))],
                   isError = True\<rparr>, [])"
  using assms
  by (simp add: appendTestSteps_def appendTestSteps_try_def Let_def catch_block_def get_prop_def
                formatError_def)

lemma appendTestSteps_too_many:
  assumes "\<not> nullish args"
    and "truthy (read_prop args ''testCaseKey'')"
    and "testCaseKeyPattern_test (read_prop args ''testCaseKey'')"
    and "read_prop args ''steps'' = JArr steps" and "100 < length steps"
  shows "appendTestSteps http args
           = (Inr \<lparr>content = [ErrorText (Error ''Maximum 100 steps can be added per request'')
                                (''appending test steps to '' @ to_string (read_prop args ''testCaseKey''))],
                   isError = True\<rparr>, [])"
  using assms
  by (auto simp: appendTestSteps_def appendTestSteps_try_def Let_def catch_block_def get_prop_def
                formatError_def)


text \<open>
  The handlers that validate a test case key, and the bounds of \<open>append_test_steps\<close>:
  no step and 101 steps are rejected by validation with no request sent; 100 well-formed
  steps pass validation, and exactly one request is sent.
\<close>

lemma validation_key_handlers:
  "(is_validation_error (fst (getTestSteps http args)) \<longrightarrow> snd (getTestSteps http args) = [])
   \<and> (is_validation_error (fst (appendTestSteps http args)) \<longrightarrow> snd (appendTestSteps http args) = [])
   \<and> (\<forall>out. getAllTestSteps http args = Some out \<longrightarrow> is_validation_error (fst out) \<longrightarrow> snd out = [])
   \<and> (is_validation_error (fst (getTestCase http args)) \<longrightarrow> snd (getTestCase http args) = [])
   \<and> (is_validation_error (fst (updateTestCase http args)) \<longrightarrow> snd (updateTestCase http args) = [])
   \<and> (length steps = 0 \<or> length steps = 101 \<longrightarrow>
        is_validation_error
          (fst (appendTestSteps http (JObj [(''testCaseKey'', JStr ''PROJ-T1''), (''steps'', JArr steps)])))
        \<and> snd (appendTestSteps http (JObj [(''testCaseKey'', JStr ''PROJ-T1''), (''steps'', JArr steps)])) = [])
   \<and> (length steps = 100 \<and> (\<forall>step \<in> set steps. well_formed_step step) \<longrightarrow>
        \<not> is_validation_error
          (fst (appendTestSteps http (JObj [(''testCaseKey'', JStr ''PROJ-T1''), (''steps'', JArr steps)])))
        \<and> length (snd (appendTestSteps http
                          (JObj [(''testCaseKey'', JStr ''PROJ-T1''), (''steps'', JArr steps)]))) = 1)"
proof (intro conjI impI allI)
  let ?args = "JObj [(''testCaseKey'', JStr ''PROJ-T1''), (''steps'', JArr steps)]"
  have k: "\<not> nullish ?args" "truthy (read_prop ?args ''testCaseKey'')"
      "testCaseKeyPattern_test (read_prop ?args ''testCaseKey'')"
      "read_prop ?args ''steps'' = JArr steps"
    using key_PROJ_T1 by simp_all
  {
    assume "length steps = 0 \<or> length steps = 101"
    then have r: "appendTestSteps http ?args
           = (Inr \<lparr>content = [ErrorText (Error ''At least one step must be provided'')
                                (''appending test steps to '' @ to_string (read_prop ?args ''testCaseKey''))],
                   isError = True\<rparr>, [])
         \<or> appendTestSteps http ?args
           = (Inr \<lparr>content = [ErrorText (Error ''Maximum 100 steps can be added per request'')
                                (''appending test steps to '' @ to_string (read_prop ?args ''testCaseKey''))],
                   isError = True\<rparr>, [])"
      using appendTestSteps_no_steps[OF k(1,2,3), of http] appendTestSteps_too_many[OF k, of http]
      by auto
    from r show "is_validation_error (fst (appendTestSteps http ?args))"
      by (auto simp: is_validation_error_def)
    from r show "snd (appendTestSteps http ?args) = []" by auto
  }
  {
    assume h: "length steps = 100 \<and> (\<forall>step \<in> set steps. well_formed_step step)"
    then have "\<exists>items. format_steps 0 steps = Inr items
           \<and> snd (appendTestSteps http ?args)
               = [\<lparr>req_method = ''POST'',
                   req_url = ''/testcases/'' @ to_string (read_prop ?args ''testCaseKey'') @ ''/teststeps'',
                   req_data = JObj [(''mode'', JStr ''OVERWRITE''), (''items'', JArr items)],
                   req_params = []\<rparr>]"
      by (intro appendTestSteps_valid k) simp_all
    then show len: "length (snd (appendTestSteps http ?args)) = 1" by auto
    show "\<not> is_validation_error (fst (appendTestSteps http ?args))"
      using appendTestSteps_validation[of http ?args] len by auto
  }
qed (auto dest: getTestSteps_validation appendTestSteps_validation getAllTestSteps_validation
                getTestCase_validation updateTestCase_validation)


lemma key_bad: "\<not> testCaseKeyPattern_test (JStr ''bad'')"
  by (simp add: testCaseKeyPattern_test_def testCaseKeyPattern_def Plus_def is_digit_def)



subsection \<open>The payload of \<open>update_test_case\<close>\<close>











subsection \<open>Validation before remote calls, the other handlers\<close>

lemma catch_fixed_validation:
  "is_validation_error (catch_fixed operation e) \<Longrightarrow> \<exists>m. e = Error m"
  by (cases e)
     (auto simp: is_validation_error_def catch_fixed_def formatError_def split: if_splits sum.splits)

lemma catch_field_validation:
  "is_validation_error (catch_field args field doing e) \<Longrightarrow> \<exists>m. e = Error m"
  by (cases e)
     (auto simp: is_validation_error_def catch_field_def get_prop_def formatError_def
           split: if_splits sum.splits)

lemma getProject_validation:
  "is_validation_error (fst (getProject http args)) \<Longrightarrow> snd (getProject http args) = []"
proof -
  have t: "log = []" if "getProject_try http args = (Inl (Error m), log)" for m log
    using that
    by (auto simp: getProject_try_def Let_def client_getProject_def
             split: if_splits prod.splits sum.splits dest: request_not_Error)
  have s: "\<not> is_validation_error (Inr result)" if "getProject_try http args = (Inr result, log)"
    for result log
    using that
    by (auto simp: getProject_try_def Let_def is_validation_error_def
             split: if_splits prod.splits sum.splits)
  assume "is_validation_error (fst (getProject http args))"
  then show ?thesis
    unfolding getProject_def
    by (cases "getProject_try http args"; cases "fst (getProject_try http args)")
       (auto dest: catch_field_validation t s)
qed

lemma getFolder_validation:
  "is_validation_error (fst (getFolder http args)) \<Longrightarrow> snd (getFolder http args) = []"
proof -
  have t: "log = []" if "getFolder_try http args = (Inl (Error m), log)" for m log
    using that
    by (auto simp: getFolder_try_def Let_def client_getFolder_def
             split: if_splits prod.splits sum.splits dest: request_not_Error)
  have s: "\<not> is_validation_error (Inr result)" if "getFolder_try http args = (Inr result, log)"
    for result log
    using that
    by (auto simp: getFolder_try_def Let_def is_validation_error_def
             split: if_splits prod.splits sum.splits)
  assume "is_validation_error (fst (getFolder http args))"
  then show ?thesis
    unfolding getFolder_def
    by (cases "getFolder_try http args"; cases "fst (getFolder_try http args)")
       (auto dest: catch_field_validation t s)
qed

lemma createFolder_validation:
  "is_validation_error (fst (createFolder http args)) \<Longrightarrow> snd (createFolder http args) = []"
proof -
  have t: "log = []" if "createFolder_try http args = (Inl (Error m), log)" for m log
    using that
    by (auto simp: createFolder_try_def Let_def client_createFolder_def
             split: if_splits prod.splits sum.splits dest: request_not_Error)
  have s: "\<not> is_validation_error (Inr result)" if "createFolder_try http args = (Inr result, log)"
    for result log
    using that
    by (auto simp: createFolder_try_def Let_def is_validation_error_def
             split: if_splits prod.splits sum.splits)
  assume "is_validation_error (fst (createFolder http args))"
  then show ?thesis
    unfolding createFolder_def
    by (cases "createFolder_try http args"; cases "fst (createFolder_try http args)")
       (auto dest: catch_fixed_validation t s)
qed

lemma listTestCases_validation:
  "is_validation_error (fst (listTestCases http args)) \<Longrightarrow> snd (listTestCases http args) = []"
proof -
  have t: "log = []" if "listTestCases_try http args = (Inl (Error m), log)" for m log
    using that
    by (auto simp: listTestCases_try_def Let_def client_getTestCases_def
             split: if_splits prod.splits sum.splits dest: request_not_Error)
  have s: "\<not> is_validation_error (Inr result)" if "listTestCases_try http args = (Inr result, log)"
    for result log
    using that
    by (auto simp: listTestCases_try_def Let_def is_validation_error_def
             split: if_splits prod.splits sum.splits)
  assume "is_validation_error (fst (listTestCases http args))"
  then show ?thesis
    unfolding listTestCases_def
    by (cases "listTestCases_try http args"; cases "fst (listTestCases_try http args)")
       (auto dest: catch_fixed_validation t s)
qed

lemma createTestCase_validation:
  "is_validation_error (fst (createTestCase http args)) \<Longrightarrow> snd (createTestCase http args) = []"
proof -
  have t: "log = []" if "createTestCase_try http args = (Inl (Error m), log)" for m log
    using that
    by (auto simp: createTestCase_try_def Let_def client_createTestCase_def
             split: if_splits prod.splits sum.splits dest: request_not_Error)
  have s: "\<not> is_validation_error (Inr result)" if "createTestCase_try http args = (Inr result, log)"
    for result log
    using that
    by (auto simp: createTestCase_try_def Let_def is_validation_error_def
             split: if_splits prod.splits sum.splits)
  assume "is_validation_error (fst (createTestCase http args))"
  then show ?thesis
    unfolding createTestCase_def
    by (cases "createTestCase_try http args"; cases "fst (createTestCase_try http args)")
       (auto dest: catch_fixed_validation t s)
qed

lemma getTestScript_validation:
  "is_validation_error (fst (getTestScript http args)) \<Longrightarrow> snd (getTestScript http args) = []"
proof -
  have t: "log = []" if "getTestScript_try http args = (Inl (Error m), log)" for m log
    using that
    by (auto simp: getTestScript_try_def Let_def client_getTestScript_def
             split: if_splits prod.splits sum.splits dest: request_not_Error)
  have s: "\<not> is_validation_error (Inr result)" if "getTestScript_try http args = (Inr result, log)"
    for result log
    using that
    by (auto simp: getTestScript_try_def Let_def is_validation_error_def
             split: if_splits prod.splits sum.splits)
  assume "is_validation_error (fst (getTestScript http args))"
  then show ?thesis
    unfolding getTestScript_def
    by (cases "getTestScript_try http args"; cases "fst (getTestScript_try http args)")
       (auto dest: catch_block_validation t s)
qed

lemma createTestScript_try_validation:
  "createTestScript_try http args = (Inl (Error m), log) \<Longrightarrow> log = []"
  by (auto simp: createTestScript_try_def Let_def client_createTestScript_def
           split: if_splits prod.splits sum.splits dest: request_not_Error)

lemma createTestScript_try_success:
  "createTestScript_try http args = (Inr result, log) \<Longrightarrow>
     \<exists>kvs. content result = [JsonText (JObj kvs)] \<and> \<not> isError result"
  by (auto simp: createTestScript_try_def Let_def
           split: if_splits prod.splits sum.splits)

lemma createTestScript_validation:
  "is_validation_error (fst (createTestScript http args)) \<Longrightarrow> snd (createTestScript http args) = []"
proof -
  have s: "\<not> is_validation_error (Inr result)" if "createTestScript_try http args = (Inr result, log)"
    for result log
    using createTestScript_try_success[OF that] by (auto simp: is_validation_error_def)
  assume "is_validation_error (fst (createTestScript http args))"
  then show ?thesis
    unfolding createTestScript_def
    by (cases "createTestScript_try http args"; cases "fst (createTestScript_try http args)")
       (auto dest: catch_block_validation createTestScript_try_validation s)
qed


lemma catch_block_throws: "catch_block args doing e = Inl e' \<Longrightarrow> e' = TypeError"
  by (auto simp: catch_block_def get_prop_def formatError_def split: if_splits sum.splits exn.splits)

lemma catch_block_returns:
  "catch_block args doing e = Inr result \<Longrightarrow> \<exists>operation. content result = [ErrorText e operation] \<and> isError result"
  by (auto simp: catch_block_def get_prop_def formatError_def split: if_splits sum.splits exn.splits)

lemma createTestScript_throws: "createTestScript http args = (Inl e, log) \<Longrightarrow> e = TypeError"
  by (auto simp: createTestScript_def split: prod.splits sum.splits dest: catch_block_throws)

lemma createBddTestScript_try_validation:
  "createBddTestScript_try http args = (Inl (Error m), log) \<Longrightarrow> log = []"
  by (auto simp: createBddTestScript_try_def Let_def
           split: if_splits prod.splits sum.splits list.splits option.splits
           dest: createTestScript_throws)

lemma createBddTestScript_try_success:
  "createBddTestScript_try http args = (Inr result, log) \<Longrightarrow> \<not> is_validation_error_bdd (Inr result)"
  by (auto simp: createBddTestScript_try_def Let_def is_validation_error_bdd_def
           split: if_splits prod.splits sum.splits list.splits option.splits)

lemma createBddTestScript_validation:
  assumes "is_validation_error_bdd (fst (createBddTestScript http args))"
  shows "snd (createBddTestScript http args) = []"
proof -
  obtain r log where t: "createBddTestScript_try http args = (r, log)"
    by (cases "createBddTestScript_try http args")
  show ?thesis
  proof (cases r)
    case (Inl e)
    show ?thesis
    proof (cases "catch_block args ''creating BDD test script for '' e")
      case c: (Inl e')
      with assms t Inl show ?thesis
        by (simp add: createBddTestScript_def is_validation_error_bdd_def)
    next
      case c: (Inr result)
      from catch_block_returns[OF c] obtain operation where
        "content result = [ErrorText e operation]" by blast
      with assms t Inl c obtain m where "e = Error m"
        by (cases e) (auto simp: createBddTestScript_def is_validation_error_bdd_def)
      with t Inl have "log = []" by (auto dest: createBddTestScript_try_validation)
      with t Inl show ?thesis by (simp add: createBddTestScript_def)
    qed
  next
    case (Inr result)
    with assms t show ?thesis
      by (auto simp: createBddTestScript_def dest: createBddTestScript_try_success)
  qed
qed


text \<open>
  Claim C6. Every handler that validates its arguments is covered: \<open>get_project\<close>,
  \<open>get_folder\<close>, \<open>create_folder\<close>, \<open>list_test_cases\<close>, \<open>get_test_case\<close>,
  \<open>create_test_case\<close>, \<open>update_test_case\<close>, \<open>get_test_steps\<close>, \<open>append_test_steps\<close>,
  \<open>get_all_test_steps\<close>, \<open>get_test_script\<close>, \<open>create_test_script\<close> and
  \<open>create_bdd_test_script\<close> (the remaining handlers throw no validation error).
  Whenever one of them rejects its arguments by validation, it has sent no request.
  For \<open>append_test_steps\<close> with a valid key: no step and 101 steps are rejected by
  validation with no request sent; 100 well-formed steps pass validation, and exactly
  one request is sent.
\<close>

theorem validation_before_remote_calls:
  "(is_validation_error (fst (getProject http args)) \<longrightarrow> snd (getProject http args) = [])
   \<and> (is_validation_error (fst (getFolder http args)) \<longrightarrow> snd (getFolder http args) = [])
   \<and> (is_validation_error (fst (createFolder http args)) \<longrightarrow> snd (createFolder http args) = [])
   \<and> (is_validation_error (fst (listTestCases http args)) \<longrightarrow> snd (listTestCases http args) = [])
   \<and> (is_validation_error (fst (getTestCase http args)) \<longrightarrow> snd (getTestCase http args) = [])
   \<and> (is_validation_error (fst (createTestCase http args)) \<longrightarrow> snd (createTestCase http args) = [])
   \<and> (is_validation_error (fst (updateTestCase http args)) \<longrightarrow> snd (updateTestCase http args) = [])
   \<and> (is_validation_error (fst (getTestSteps http args)) \<longrightarrow> snd (getTestSteps http args) = [])
   \<and> (is_validation_error (fst (appendTestSteps http args)) \<longrightarrow> snd (appendTestSteps http args) = [])
   \<and> (\<forall>out. getAllTestSteps http args = Some out \<longrightarrow> is_validation_error (fst out) \<longrightarrow> snd out = [])
   \<and> (is_validation_error (fst (getTestScript http args)) \<longrightarrow> snd (getTestScript http args) = [])
   \<and> (is_validation_error (fst (createTestScript http args)) \<longrightarrow> snd (createTestScript http args) = [])
   \<and> (is_validation_error_bdd (fst (createBddTestScript http args))
        \<longrightarrow> snd (createBddTestScript http args) = [])
   \<and> (length steps = 0 \<or> length steps = 101 \<longrightarrow>
        is_validation_error
          (fst (appendTestSteps http (JObj [(''testCaseKey'', JStr ''PROJ-T1''), (''steps'', JArr steps)])))
        \<and> snd (appendTestSteps http (JObj [(''testCaseKey'', JStr ''PROJ-T1''), (''steps'', JArr steps)])) = [])
   \<and> (length steps = 100 \<and> (\<forall>step \<in> set steps. well_formed_step step) \<longrightarrow>
        \<not> is_validation_error
          (fst (appendTestSteps http (JObj [(''testCaseKey'', JStr ''PROJ-T1''), (''steps'', JArr steps)])))
        \<and> length (snd (appendTestSteps http
                          (JObj [(''testCaseKey'', JStr ''PROJ-T1''), (''steps'', JArr steps)]))) = 1)"
proof -
  note k = validation_key_handlers[of http args steps]
  note b0 = k[THEN conjunct2, THEN conjunct2, THEN conjunct2, THEN conjunct2, THEN conjunct2,
              THEN conjunct1]
  note b1 = k[THEN conjunct2, THEN conjunct2, THEN conjunct2, THEN conjunct2, THEN conjunct2,
              THEN conjunct2]
  show ?thesis
    apply (intro conjI)
                  apply (rule impI, erule getProject_validation)
                 apply (rule impI, erule getFolder_validation)
                apply (rule impI, erule createFolder_validation)
               apply (rule impI, erule listTestCases_validation)
              apply (rule impI, erule getTestCase_validation)
             apply (rule impI, erule createTestCase_validation)
            apply (rule impI, erule updateTestCase_validation)
           apply (rule impI, erule getTestSteps_validation)
          apply (rule impI, erule appendTestSteps_validation)
         apply (intro allI impI, erule (1) getAllTestSteps_validation)
        apply (rule impI, erule getTestScript_validation)
       apply (rule impI, erule createTestScript_validation)
      apply (rule impI, erule createBddTestScript_validation)
     apply (rule b0)
    apply (rule b1)
    done
qed


lemma projectKey_bad: "\<not> projectKeyPattern_test (JStr ''bad'')"
  by (simp add: projectKeyPattern_test_def projectKeyPattern_def Plus_def)

text \<open>
  Arguments that every one of the thirteen handlers rejects by validation; 101 steps
  are rejected, 100 steps go out in one request.
\<close>

theorem validation_before_remote_calls_witness:
  "snd (getProject (always_reply JNull) (JObj [(''testCaseKey'', JStr ''bad''), (''projectKey'', JStr ''bad'')])) = []
   \<and> snd (getFolder (always_reply JNull) (JObj [(''testCaseKey'', JStr ''bad''), (''projectKey'', JStr ''bad'')])) = []
   \<and> snd (createFolder (always_reply JNull) (JObj [(''testCaseKey'', JStr ''bad''), (''projectKey'', JStr ''bad'')])) = []
   \<and> snd (listTestCases (always_reply JNull) (JObj [(''testCaseKey'', JStr ''bad''), (''projectKey'', JStr ''bad'')])) = []
   \<and> snd (getTestCase (always_reply JNull) (JObj [(''testCaseKey'', JStr ''bad''), (''projectKey'', JStr ''bad'')])) = []
   \<and> snd (createTestCase (always_reply JNull) (JObj [(''testCaseKey'', JStr ''bad''), (''projectKey'', JStr ''bad'')])) = []
   \<and> snd (updateTestCase (always_reply JNull) (JObj [(''testCaseKey'', JStr ''bad''), (''projectKey'', JStr ''bad'')])) = []
   \<and> snd (getTestSteps (always_reply JNull) (JObj [(''testCaseKey'', JStr ''bad''), (''projectKey'', JStr ''bad'')])) = []
   \<and> snd (appendTestSteps (always_reply JNull) (JObj [(''testCaseKey'', JStr ''bad''), (''projectKey'', JStr ''bad'')])) = []
   \<and> getAllTestSteps (always_reply JNull) (JObj [(''testCaseKey'', JStr ''bad''), (''projectKey'', JStr ''bad'')])
       = Some (Inr \<lparr>content = [ErrorText invalid_key ''fetching all test steps for bad''],
                    isError = True\<rparr>, [])
   \<and> snd (getTestScript (always_reply JNull) (JObj [(''testCaseKey'', JStr ''bad''), (''projectKey'', JStr ''bad'')])) = []
   \<and> snd (createTestScript (always_reply JNull) (JObj [(''testCaseKey'', JStr ''bad''), (''projectKey'', JStr ''bad'')])) = []
   \<and> snd (createBddTestScript (always_reply JNull) (JObj [(''testCaseKey'', JStr ''bad''), (''projectKey'', JStr ''bad'')])) = []
   \<and> snd (appendTestSteps (always_reply JNull)
            (JObj [(''testCaseKey'', JStr ''PROJ-T1''),
                   (''steps'', JArr (replicate 101 (JObj [(''description'', JStr ''Open the page'')])))]))
       = []
   \<and> length (snd (appendTestSteps (always_reply JNull)
            (JObj [(''testCaseKey'', JStr ''PROJ-T1''),
                   (''steps'', JArr (replicate 100 (JObj [(''description'', JStr ''Open the page'')])))])))
       = 1"
proof -
  let ?bad = "JObj [(''testCaseKey'', JStr ''bad''), (''projectKey'', JStr ''bad'')]"
  let ?http = "always_reply JNull"
  note ev = catch_block_def catch_field_def catch_fixed_def get_prop_def formatError_def
            is_validation_error_def invalid_key_def invalid_projectKey_def
  have a1: "is_validation_error (fst (getProject ?http ?bad))"
    by (simp add: getProject_def getProject_try_def ev)
  have a2: "is_validation_error (fst (getFolder ?http ?bad))"
    by (simp add: getFolder_def getFolder_try_def ev)
  have a3: "is_validation_error (fst (createFolder ?http ?bad))"
    by (simp add: createFolder_def createFolder_try_def ev)
  have a4: "is_validation_error (fst (listTestCases ?http ?bad))"
    using projectKey_bad by (simp add: listTestCases_def listTestCases_try_def ev)
  have a5: "is_validation_error (fst (getTestCase ?http ?bad))"
    using key_bad by (simp add: getTestCase_def getTestCase_try_def ev)
  have a6: "is_validation_error (fst (createTestCase ?http ?bad))"
    by (simp add: createTestCase_def createTestCase_try_def ev)
  have a7: "is_validation_error (fst (updateTestCase ?http ?bad))"
    using key_bad by (simp add: updateTestCase_def updateTestCase_try_def ev)
  have a8: "is_validation_error (fst (getTestSteps ?http ?bad))"
    using key_bad by (simp add: getTestSteps_def getTestSteps_try_def ev)
  have a9: "is_validation_error (fst (appendTestSteps ?http ?bad))"
    using key_bad by (simp add: appendTestSteps_def appendTestSteps_try_def ev)
  have a10: "getAllTestSteps ?http ?bad
       = Some (Inr \<lparr>content = [ErrorText invalid_key ''fetching all test steps for bad''],
                    isError = True\<rparr>, [])"
    using key_bad by (simp add: getAllTestSteps_def getAllTestSteps_try_def ev)
  have a11: "is_validation_error (fst (getTestScript ?http ?bad))"
    using key_bad by (simp add: getTestScript_def getTestScript_try_def ev)
  have a12: "is_validation_error (fst (createTestScript ?http ?bad))"
    using key_bad by (simp add: createTestScript_def createTestScript_try_def ev)
  have a13: "is_validation_error_bdd (fst (createBddTestScript ?http ?bad))"
    using key_bad
    by (simp add: createBddTestScript_def createBddTestScript_try_def is_validation_error_bdd_def ev)
  have f: "length (replicate 101 (JObj [(''description'', JStr ''Open the page'')])) = 0
           \<or> length (replicate 101 (JObj [(''description'', JStr ''Open the page'')])) = 101"
    by simp
  have g: "length (replicate 100 (JObj [(''description'', JStr ''Open the page'')])) = 100
           \<and> (\<forall>step \<in> set (replicate 100 (JObj [(''description'', JStr ''Open the page'')])).
                 well_formed_step step)"
    by (simp add: well_formed_step_def)
  note t1 = validation_before_remote_calls
            [of ?http ?bad "replicate 101 (JObj [(''description'', JStr ''Open the page'')])"]
  note t2 = validation_before_remote_calls
            [of ?http ?bad "replicate 100 (JObj [(''description'', JStr ''Open the page'')])"]
  note c1 = t1[THEN conjunct1, THEN mp, OF a1]
  note r1 = t1[THEN conjunct2]
  note c2 = r1[THEN conjunct1, THEN mp, OF a2]
  note r2 = r1[THEN conjunct2]
  note c3 = r2[THEN conjunct1, THEN mp, OF a3]
  note r3 = r2[THEN conjunct2]
  note c4 = r3[THEN conjunct1, THEN mp, OF a4]
  note r4 = r3[THEN conjunct2]
  note c5 = r4[THEN conjunct1, THEN mp, OF a5]
  note r5 = r4[THEN conjunct2]
  note c6 = r5[THEN conjunct1, THEN mp, OF a6]
  note r6 = r5[THEN conjunct2]
  note c7 = r6[THEN conjunct1, THEN mp, OF a7]
  note r7 = r6[THEN conjunct2]
  note c8 = r7[THEN conjunct1, THEN mp, OF a8]
  note r8 = r7[THEN conjunct2]
  note c9 = r8[THEN conjunct1, THEN mp, OF a9]
  note r10 = r8[THEN conjunct2, THEN conjunct2]
  note c11 = r10[THEN conjunct1, THEN mp, OF a11]
  note r11 = r10[THEN conjunct2]
  note c12 = r11[THEN conjunct1, THEN mp, OF a12]
  note r12 = r11[THEN conjunct2]
  note c13 = r12[THEN conjunct1, THEN mp, OF a13]
  note c14 = r12[THEN conjunct2, THEN conjunct1, THEN mp, OF f, THEN conjunct2]
  note c15 = t2[THEN conjunct2, THEN conjunct2, THEN conjunct2, THEN conjunct2, THEN conjunct2,
                THEN conjunct2, THEN conjunct2, THEN conjunct2, THEN conjunct2, THEN conjunct2,
                THEN conjunct2, THEN conjunct2, THEN conjunct2, THEN conjunct2,
                THEN mp, OF g, THEN conjunct2]
  show ?thesis
    by (intro conjI c1 c2 c3 c4 c5 c6 c7 c8 c9 a10 c11 c12 c13 c14 c15)
qed

end
